theory Spec2Isabelle
  imports Complex_Main "HOL-Library.AList"
begin

section \<open>JavaScript values that occur as identifiers\<close>

text \<open>
  An id or a label is typed \<open>string\<close> in the TypeScript source, but the update event is
  typed \<open>any\<close>, so a field that the producer left out arrives as \<open>undefined\<close>: \<open>jsid\<close>
  is a string or \<open>undefined\<close>. The focused and the hovered node id are typed
  \<open>string | null\<close>: they are a \<open>jsid option\<close>, with \<open>None\<close> for \<open>null\<close>. \<open>truthy\<close> is the
  test that \<open>if (v)\<close> performs on such a value, \<open>to_string\<close> is what a template literal
  writes for an id. JavaScript numbers are modelled as real numbers.
\<close>

datatype jsid = Undefined | Str string

fun truthy :: "jsid option \<Rightarrow> bool" where
  "truthy (Some (Str s)) = (s \<noteq> [])"
| "truthy (Some Undefined) = False"
| "truthy None = False"

fun to_string :: "jsid \<Rightarrow> string" where
  "to_string (Str s) = s"
| "to_string Undefined = ''undefined''"

section \<open>The gesture state machine of \<open>predictWebcam\<close> (App.tsx)\<close>

text \<open>
  The three refs \<open>pinchDurationRef\<close>, \<open>spreadDurationRef\<close> and \<open>hasTriggeredRef\<close> form the
  state. A frame carries the recogniser's result (\<open>None\<close> when no hand was detected, else
  the landmarks \<open>hand[4]\<close> and \<open>hand[8]\<close>, of which only \<open>x\<close> and \<open>y\<close> are read) and the
  values of the React state \<open>hoveredNodeId\<close> and \<open>focusedNodeId\<close> that the callback sees
  on that frame. \<open>enterNode\<close> and \<open>exitNode\<close> are the two events; \<open>Select v\<close> stands for
  the call \<open>enterNode(v)\<close>, which makes \<open>v\<close> the focused node id. The step returns the
  event it raised, if any, and the cursor it passed to \<open>setCursor\<close>. A call that returns
  before the recogniser has produced a result (tracking switched off, video not ready, the
  recogniser throwing) leaves the three refs as they are and is not a frame of the model.
\<close>

record GestureState =
  pinchDuration :: nat
  spreadDuration :: nat
  hasTriggered :: bool

record Landmark =
  lm_x :: real
  lm_y :: real

record Frame =
  landmarks :: "(Landmark \<times> Landmark) option"
  hoveredNodeId :: "jsid option"
  focusedNodeId :: "jsid option"

record HandCursor =
  cursor_x :: real
  cursor_y :: real
  cursor_isPinching :: bool

datatype Event = Select "jsid option" | Deselect

definition pinchDist :: "Landmark \<Rightarrow> Landmark \<Rightarrow> real" where
  "pinchDist thumbTip indexTip =
     sqrt ((lm_x thumbTip - lm_x indexTip)\<^sup>2 + (lm_y thumbTip - lm_y indexTip)\<^sup>2)"

definition isPinching :: "Landmark \<Rightarrow> Landmark \<Rightarrow> bool" where
  "isPinching thumbTip indexTip = (pinchDist thumbTip indexTip < 0.05)"

definition isOpen :: "Landmark \<Rightarrow> Landmark \<Rightarrow> bool" where
  "isOpen thumbTip indexTip = (pinchDist thumbTip indexTip > 0.20)"

definition predictWebcam ::
  "GestureState \<Rightarrow> Frame \<Rightarrow> GestureState \<times> Event option \<times> HandCursor option" where
  "predictWebcam st fr =
     (case landmarks fr of
        Some (thumbTip, indexTip) \<Rightarrow>
          (let cur = Some \<lparr>cursor_x = 1 - lm_x indexTip, cursor_y = lm_y indexTip,
                          cursor_isPinching = isPinching thumbTip indexTip\<rparr>
           in if isPinching thumbTip indexTip then
                (let st1 = st\<lparr>pinchDuration := pinchDuration st + 1, spreadDuration := 0\<rparr>
                 in if pinchDuration st1 > 5 \<and> \<not> hasTriggered st1 then
                      (if truthy (hoveredNodeId fr) then
                         (st1\<lparr>hasTriggered := True\<rparr>,
                          (if focusedNodeId fr \<noteq> hoveredNodeId fr
                           then Some (Select (hoveredNodeId fr)) else None),
                          cur)
                       else (st1, None, cur))
                    else (st1, None, cur))
              else if isOpen thumbTip indexTip then
                (let st1 = st\<lparr>spreadDuration := spreadDuration st + 1, pinchDuration := 0\<rparr>
                 in if spreadDuration st1 > 8 \<and> \<not> hasTriggered st1 then
                      (st1\<lparr>hasTriggered := True\<rparr>,
                       (if truthy (focusedNodeId fr) then Some Deselect else None),
                       cur)
                    else (st1, None, cur))
              else
                (st\<lparr>pinchDuration := 0, spreadDuration := 0, hasTriggered := False\<rparr>,
                 None, cur))
      | None \<Rightarrow> (st\<lparr>pinchDuration := 0, spreadDuration := 0\<rparr>, None, None))"

text \<open>The classification of a frame, as the two thresholds of the source decide it.\<close>

definition pinchingFrame :: "Frame \<Rightarrow> bool" where
  "pinchingFrame fr =
     (case landmarks fr of Some (t, i) \<Rightarrow> isPinching t i | None \<Rightarrow> False)"

definition openFrame :: "Frame \<Rightarrow> bool" where
  "openFrame fr =
     (case landmarks fr of Some (t, i) \<Rightarrow> \<not> isPinching t i \<and> isOpen t i | None \<Rightarrow> False)"

definition neutralFrame :: "Frame \<Rightarrow> bool" where
  "neutralFrame fr =
     (case landmarks fr of Some (t, i) \<Rightarrow> \<not> isPinching t i \<and> \<not> isOpen t i | None \<Rightarrow> False)"

text \<open>
  One call of \<open>predictWebcam\<close> per animation frame: the state is threaded through the
  frames and the raised events are collected in order.
\<close>

fun runFrames :: "GestureState \<Rightarrow> Frame list \<Rightarrow> GestureState \<times> Event list" where
  "runFrames st [] = (st, [])"
| "runFrames st (fr # frs) =
     (case predictWebcam st fr of
        (st1, ev, cur) \<Rightarrow>
          (case runFrames st1 frs of
             (st2, evs) \<Rightarrow> (st2, (case ev of Some e \<Rightarrow> e # evs | None \<Rightarrow> evs))))"

definition initialGesture :: GestureState where
  "initialGesture = \<lparr>pinchDuration = 0, spreadDuration = 0, hasTriggered = False\<rparr>"

text \<open>
  Sample frames: thumb and index tip coincide (distance 0, pinching), are 0.1 apart
  (neutral) or 0.3 apart (open).
\<close>

definition pinchAt :: "jsid option \<Rightarrow> jsid option \<Rightarrow> Frame" where
  "pinchAt h f =
     \<lparr>landmarks = Some (\<lparr>lm_x = 0.5, lm_y = 0.5\<rparr>, \<lparr>lm_x = 0.5, lm_y = 0.5\<rparr>),
      hoveredNodeId = h, focusedNodeId = f\<rparr>"

definition neutralAt :: "jsid option \<Rightarrow> jsid option \<Rightarrow> Frame" where
  "neutralAt h f =
     \<lparr>landmarks = Some (\<lparr>lm_x = 0.6, lm_y = 0.5\<rparr>, \<lparr>lm_x = 0.5, lm_y = 0.5\<rparr>),
      hoveredNodeId = h, focusedNodeId = f\<rparr>"

definition openAt :: "jsid option \<Rightarrow> jsid option \<Rightarrow> Frame" where
  "openAt h f =
     \<lparr>landmarks = Some (\<lparr>lm_x = 0.8, lm_y = 0.5\<rparr>, \<lparr>lm_x = 0.5, lm_y = 0.5\<rparr>),
      hoveredNodeId = h, focusedNodeId = f\<rparr>"

section \<open>Graph data (types.ts)\<close>

text \<open>
  \<open>GraphNode\<close>, \<open>GraphLink\<close> and \<open>GraphData\<close> as declared. The coordinates \<open>x\<close> and \<open>y\<close>
  are optional: they are \<open>undefined\<close> until the simulation has placed the node. A link's
  \<open>source\<close> and \<open>target\<close> are an id or, once the simulation has bound the link, the node
  object with that id; every reader goes through \<open>.id\<close> in that case, so the model keeps
  the id.
\<close>

record GraphNode =
  node_id :: jsid
  node_label :: jsid
  val :: real
  node_x :: "real option"
  node_y :: "real option"

record GraphLink =
  source :: jsid
  target :: jsid
  link_value :: real

record GraphData =
  nodes :: "GraphNode list"
  links :: "GraphLink list"

section \<open>View transform and hit test (ThinkingGraph.tsx)\<close>

text \<open>
  The zoom and focus effect writes the attribute \<open>translate(tx, ty) scale(k)\<close>; the model
  keeps the three numbers. The effect does nothing while the SVG element is not mounted
  (\<open>svgRef.current\<close> is null), which is the result \<open>None\<close>.
\<close>

record Transform =
  t_x :: real
  t_y :: real
  t_k :: real

definition viewTransform ::
  "bool \<Rightarrow> real \<Rightarrow> real \<Rightarrow> real \<Rightarrow> jsid option \<Rightarrow> GraphNode list \<Rightarrow> Transform option" where
  "viewTransform svg width height zoomLevel focusId ns =
     (if svg then
        Some (if truthy focusId then
                (case find (\<lambda>n. Some (node_id n) = focusId) ns of
                   Some node \<Rightarrow>
                     (case node_x node of
                        Some x \<Rightarrow>
                          (case node_y node of
                             Some y \<Rightarrow>
                               (let k = 1.2
                                in \<lparr>t_x = width / 2 - x * k, t_y = height / 2 - y * k, t_k = k\<rparr>)
                           | None \<Rightarrow> \<lparr>t_x = width / 2, t_y = height / 2, t_k = zoomLevel\<rparr>)
                      | None \<Rightarrow> \<lparr>t_x = width / 2, t_y = height / 2, t_k = zoomLevel\<rparr>)
                 | None \<Rightarrow> \<lparr>t_x = width / 2, t_y = height / 2, t_k = zoomLevel\<rparr>)
              else \<lparr>t_x = width / 2, t_y = height / 2, t_k = zoomLevel\<rparr>)
      else None)"

text \<open>
  The hit test computes its own \<open>tx\<close>, \<open>ty\<close> and \<open>k\<close> inside the loop over the nodes
  (\<open>hitProjection\<close>), projects the node, and keeps the node when it is strictly nearer to
  the cursor than the best distance so far, which starts at the radius 70 (\<open>hitStep\<close>).
\<close>

definition hitProjection ::
  "real \<Rightarrow> real \<Rightarrow> real \<Rightarrow> jsid option \<Rightarrow> GraphNode list \<Rightarrow> Transform" where
  "hitProjection width height zoomLevel focusId ns =
     (let unfocused = \<lparr>t_x = width / 2, t_y = height / 2, t_k = zoomLevel\<rparr>
      in if truthy focusId then
           (case find (\<lambda>n. Some (node_id n) = focusId) ns of
              Some focusedNode \<Rightarrow>
                (case node_x focusedNode of
                   Some fx \<Rightarrow>
                     (case node_y focusedNode of
                        Some fy \<Rightarrow>
                          (let focusK = 1.2
                           in \<lparr>t_x = width / 2 - fx * focusK, t_y = height / 2 - fy * focusK,
                               t_k = focusK\<rparr>)
                      | None \<Rightarrow> unfocused)
                 | None \<Rightarrow> unfocused)
            | None \<Rightarrow> unfocused)
         else unfocused)"

definition hitStep ::
  "real \<Rightarrow> real \<Rightarrow> real \<Rightarrow> jsid option \<Rightarrow> GraphNode list \<Rightarrow> real \<Rightarrow> real \<Rightarrow>
   jsid option \<times> real \<Rightarrow> GraphNode \<Rightarrow> jsid option \<times> real" where
  "hitStep width height zoomLevel focusId ns cursorX cursorY acc node =
     (case node_x node of
        Some x \<Rightarrow>
          (case node_y node of
             Some y \<Rightarrow>
               (let t = hitProjection width height zoomLevel focusId ns;
                    screenNodeX = x * t_k t + t_x t;
                    screenNodeY = y * t_k t + t_y t;
                    dist = sqrt ((screenNodeX - cursorX)\<^sup>2 + (screenNodeY - cursorY)\<^sup>2)
                in if dist < snd acc then (Some (node_id node), dist) else acc)
           | None \<Rightarrow> acc)
      | None \<Rightarrow> acc)"

text \<open>
  The effect as a function to the hover id it leaves behind (the value of
  \<open>activeHoverId\<close>, which is also what \<open>onNodeHover\<close> reported last). Without a cursor,
  without the SVG element or without nodes, a set hover id is cleared; otherwise the loop
  runs from \<open>(null, 70)\<close> and its result replaces the hover id when the two differ.
\<close>

definition hitTest ::
  "bool \<Rightarrow> HandCursor option \<Rightarrow> real \<Rightarrow> real \<Rightarrow> real \<Rightarrow> jsid option \<Rightarrow> GraphNode list \<Rightarrow>
   jsid option \<Rightarrow> jsid option" where
  "hitTest svg cursor width height zoomLevel focusId ns activeHoverId =
     (case cursor of
        None \<Rightarrow> (if truthy activeHoverId then None else activeHoverId)
      | Some c \<Rightarrow>
          if \<not> svg \<or> ns = [] then (if truthy activeHoverId then None else activeHoverId)
          else
            (let cursorX = cursor_x c * width;
                 cursorY = cursor_y c * height;
                 hitNode = fst (foldl (hitStep width height zoomLevel focusId ns cursorX cursorY)
                                  (None, 70) ns)
             in if hitNode \<noteq> activeHoverId then hitNode else activeHoverId))"

text \<open>
  What the attribute \<open>translate(tx, ty) scale(k)\<close> does to a point of the graph, and the
  distance between a node's place on the screen and a pixel (no distance for a node that
  has no position yet).
\<close>

definition applyTransform :: "Transform \<Rightarrow> real \<Rightarrow> real \<Rightarrow> real \<times> real" where
  "applyTransform t x y = (x * t_k t + t_x t, y * t_k t + t_y t)"

definition pixelDist :: "real \<times> real \<Rightarrow> real \<times> real \<Rightarrow> real" where
  "pixelDist p q = sqrt ((fst p - fst q)\<^sup>2 + (snd p - snd q)\<^sup>2)"

definition nodeDist :: "Transform \<Rightarrow> real \<times> real \<Rightarrow> GraphNode \<Rightarrow> real option" where
  "nodeDist t c n =
     (case node_x n of
        Some x \<Rightarrow> (case node_y n of Some y \<Rightarrow> Some (pixelDist (applyTransform t x y) c)
                    | None \<Rightarrow> None)
      | None \<Rightarrow> None)"

text \<open>
  The layout effect is declared between the hit test and the zoom and focus effect. When
  the SVG element is mounted it hands the nodes to the force simulation with
  \<open>simulation.nodes(data.nodes)\<close>. d3-force, a dependency of the repository and not part
  of it, then initialises the node objects in place: a node whose \<open>x\<close> or \<open>y\<close> is not a
  number gets both coordinates from the position that belongs to its index. That position
  is the parameter \<open>place\<close>; \<open>d3Place\<close> is the spiral of the library, with radius
  \<open>10 * sqrt (0.5 + i)\<close> and angle \<open>i * pi * (3 - sqrt 5)\<close>. The pinned coordinates \<open>fx\<close> and
  \<open>fy\<close>, which only the drag of a rendered node sets, are not modelled.
\<close>

definition placeNode :: "(nat \<Rightarrow> real \<times> real) \<Rightarrow> nat \<times> GraphNode \<Rightarrow> GraphNode" where
  "placeNode place e =
     (if node_x (snd e) = None \<or> node_y (snd e) = None
      then (snd e)\<lparr>node_x := Some (fst (place (fst e))), node_y := Some (snd (place (fst e)))\<rparr>
      else snd e)"

definition simulationNodes :: "(nat \<Rightarrow> real \<times> real) \<Rightarrow> GraphNode list \<Rightarrow> GraphNode list" where
  "simulationNodes place ns = map (placeNode place) (enumerate 0 ns)"

definition d3Place :: "nat \<Rightarrow> real \<times> real" where
  "d3Place i =
     (10 * sqrt (0.5 + real i) * cos (real i * (pi * (3 - sqrt 5))),
      10 * sqrt (0.5 + real i) * sin (real i * (pi * (3 - sqrt 5))))"

text \<open>
  The three effects of one commit in which all of them run (the mount, a change of the
  data or a change of the focus), in the order of their declaration: the hit test on the
  nodes as they are, the layout, and the zoom and focus effect on the nodes as the layout
  has left them. The result is the hover id, the nodes and the transform.
\<close>

definition commitEffects ::
  "(nat \<Rightarrow> real \<times> real) \<Rightarrow> bool \<Rightarrow> HandCursor option \<Rightarrow> real \<Rightarrow> real \<Rightarrow> real \<Rightarrow>
   jsid option \<Rightarrow> GraphNode list \<Rightarrow> jsid option \<Rightarrow>
   jsid option \<times> GraphNode list \<times> Transform option" where
  "commitEffects place svg cursor width height zoomLevel focusId ns activeHoverId =
     (let hover = hitTest svg cursor width height zoomLevel focusId ns activeHoverId;
          ns1 = (if svg then simulationNodes place ns else ns);
          transform = viewTransform svg width height zoomLevel focusId ns1
      in (hover, ns1, transform))"

section \<open>The graph merge of \<open>handleGraphUpdate\<close> (App.tsx)\<close>

text \<open>
  A JavaScript \<open>Map\<close> keeps its entries in insertion order and holds one entry per key:
  \<open>set\<close> on a key that is present replaces the value in place, \<open>set\<close> on a new key
  appends the entry. The constructor inserts the given entries one after the other.
  Assigning to a field of an object that the map holds (\<open>existing.val = ...\<close>) is the same
  as storing the changed object under its key.
\<close>

type_synonym ('k, 'v) jsmap = "('k \<times> 'v) list"

definition map_get :: "('k, 'v) jsmap \<Rightarrow> 'k \<Rightarrow> 'v option" where
  "map_get m k = map_of m k"

definition map_has :: "('k, 'v) jsmap \<Rightarrow> 'k \<Rightarrow> bool" where
  "map_has m k = (map_of m k \<noteq> None)"

definition map_set :: "('k, 'v) jsmap \<Rightarrow> 'k \<Rightarrow> 'v \<Rightarrow> ('k, 'v) jsmap" where
  "map_set m k v = AList.update k v m"

definition map_values :: "('k, 'v) jsmap \<Rightarrow> 'v list" where
  "map_values m = map snd m"

definition new_Map :: "('k \<times> 'v) list \<Rightarrow> ('k, 'v) jsmap" where
  "new_Map entries = foldl (\<lambda>m (k, v). map_set m k v) [] entries"

text \<open>
  The update event is the argument object of the tool call \<open>update_mind_map\<close>. A field
  that is absent reads as \<open>undefined\<close>; \<open>concepts\<close> and \<open>relationships\<close> are tested before
  they are traversed.
\<close>

record Concept =
  c_id :: jsid
  c_label :: jsid
  importance :: real

record Relationship =
  source_id :: jsid
  target_id :: jsid
  strength :: real

record Update =
  concepts :: "Concept list option"
  relationships :: "Relationship list option"

text \<open>The key of a link in \<open>newLinksMap\<close>: the template literal \<open>`${s}-${t}`\<close>.\<close>

definition link_key :: "jsid \<Rightarrow> jsid \<Rightarrow> string" where
  "link_key s t = to_string s @ ''-'' @ to_string t"

text \<open>The body of \<open>update.concepts.forEach\<close>, on the pair of the two maps.\<close>

definition conceptStep ::
  "jsid option \<Rightarrow> (jsid, GraphNode) jsmap \<times> (string, GraphLink) jsmap \<Rightarrow> Concept \<Rightarrow>
   (jsid, GraphNode) jsmap \<times> (string, GraphLink) jsmap" where
  "conceptStep currentFocus st c =
     (let newNodesMap = fst st; newLinksMap = snd st
      in case map_get newNodesMap (c_id c) of
           Some existing \<Rightarrow>
             (map_set newNodesMap (c_id c)
                (existing\<lparr>val := min 20 (val existing + importance c * 0.5)\<rparr>),
              newLinksMap)
         | None \<Rightarrow>
             (let nodes1 = map_set newNodesMap (c_id c)
                    \<lparr>node_id = c_id c, node_label = c_label c, val = importance c,
                     node_x = None, node_y = None\<rparr>
              in case currentFocus of
                   Some focusId \<Rightarrow>
                     if truthy currentFocus \<and> focusId \<noteq> c_id c then
                       (let linkKey = link_key focusId (c_id c);
                            reverseKey = link_key (c_id c) focusId
                        in if \<not> map_has newLinksMap linkKey \<and> \<not> map_has newLinksMap reverseKey
                           then (nodes1,
                                 map_set newLinksMap linkKey
                                   \<lparr>source = focusId, target = c_id c, link_value = 3\<rparr>)
                           else (nodes1, newLinksMap))
                     else (nodes1, newLinksMap)
                 | None \<Rightarrow> (nodes1, newLinksMap)))"

text \<open>The body of \<open>update.relationships.forEach\<close>.\<close>

definition relationshipStep ::
  "(jsid, GraphNode) jsmap \<times> (string, GraphLink) jsmap \<Rightarrow> Relationship \<Rightarrow>
   (jsid, GraphNode) jsmap \<times> (string, GraphLink) jsmap" where
  "relationshipStep st r =
     (let newNodesMap = fst st; newLinksMap = snd st;
          key = link_key (source_id r) (target_id r);
          existing = map_get newLinksMap key
      in if map_has newNodesMap (source_id r) \<and> map_has newNodesMap (target_id r) then
           (case existing of
              Some l \<Rightarrow>
                (newNodesMap,
                 map_set newLinksMap key (l\<lparr>link_value := min 10 (link_value l + strength r * 0.5)\<rparr>))
            | None \<Rightarrow>
                (newNodesMap,
                 map_set newLinksMap key
                   \<lparr>source = source_id r, target = target_id r, link_value = strength r\<rparr>))
         else (newNodesMap, newLinksMap))"

text \<open>
  The state updater passed to \<open>setGraphData\<close>, as a function of the previous graph, the
  update and the focused node id read from \<open>focusedNodeIdRef\<close>.
\<close>

definition handleGraphUpdate :: "GraphData \<Rightarrow> Update \<Rightarrow> jsid option \<Rightarrow> GraphData" where
  "handleGraphUpdate prev update currentFocus =
     (let newNodesMap = new_Map (map (\<lambda>n. (node_id n, n)) (nodes prev));
          newLinksMap = new_Map (map (\<lambda>l. (link_key (source l) (target l), l)) (links prev));
          st0 = (newNodesMap, newLinksMap);
          st1 = (case concepts update of
                   Some cs \<Rightarrow> foldl (conceptStep currentFocus) st0 cs
                 | None \<Rightarrow> st0);
          st2 = (case relationships update of
                   Some rs \<Rightarrow> foldl relationshipStep st1 rs
                 | None \<Rightarrow> st1)
      in \<lparr>nodes = map_values (fst st2), links = map_values (snd st2)\<rparr>)"

text \<open>
  The pair of maps that \<open>handleGraphUpdate\<close> holds after both loops, before it turns them
  into arrays; \<open>handleGraphUpdate\<close> returns the values of the two.
\<close>

definition mergeMaps ::
  "GraphData \<Rightarrow> Update \<Rightarrow> jsid option \<Rightarrow>
   (jsid, GraphNode) jsmap \<times> (string, GraphLink) jsmap" where
  "mergeMaps prev update currentFocus =
     (let newNodesMap = new_Map (map (\<lambda>n. (node_id n, n)) (nodes prev));
          newLinksMap = new_Map (map (\<lambda>l. (link_key (source l) (target l), l)) (links prev));
          st0 = (newNodesMap, newLinksMap);
          st1 = (case concepts update of
                   Some cs \<Rightarrow> foldl (conceptStep currentFocus) st0 cs
                 | None \<Rightarrow> st0)
      in case relationships update of
           Some rs \<Rightarrow> foldl relationshipStep st1 rs
         | None \<Rightarrow> st1)"

text \<open>
  A sequence of calls, each with its update and the focus at that moment, and the graphs
  it goes through. \<open>focusValid\<close> says that the focus of every call, when the code takes
  it as set, is the id of a node of the graph the call starts from.
\<close>

definition emptyGraph :: GraphData where
  "emptyGraph = \<lparr>nodes = [], links = []\<rparr>"

fun applyUpdates :: "GraphData \<Rightarrow> (Update \<times> jsid option) list \<Rightarrow> GraphData list" where
  "applyUpdates g [] = []"
| "applyUpdates g (call # calls) =
     handleGraphUpdate g (fst call) (snd call)
       # applyUpdates (handleGraphUpdate g (fst call) (snd call)) calls"

definition nodeIds :: "GraphData \<Rightarrow> jsid list" where
  "nodeIds g = map node_id (nodes g)"

fun focusValid :: "GraphData \<Rightarrow> (Update \<times> jsid option) list \<Rightarrow> bool" where
  "focusValid g [] = True"
| "focusValid g (call # calls) =
     ((truthy (snd call) \<longrightarrow> snd call \<in> set (map Some (nodeIds g)))
      \<and> focusValid (handleGraphUpdate g (fst call) (snd call)) calls)"

definition noDangling :: "GraphData \<Rightarrow> bool" where
  "noDangling g =
     list_all (\<lambda>l. source l \<in> set (nodeIds g) \<and> target l \<in> set (nodeIds g)) (links g)"

text \<open>
  An id as the tool declaration describes it (lowercase snake case) is a string without
  the character that separates the two ids in a link key.
\<close>

definition plainId :: "jsid \<Rightarrow> bool" where
  "plainId v = (case v of Str s \<Rightarrow> CHR ''-'' \<notin> set s | Undefined \<Rightarrow> False)"

definition between :: "jsid \<Rightarrow> jsid \<Rightarrow> GraphLink \<Rightarrow> bool" where
  "between a b l = ((source l = a \<and> target l = b) \<or> (source l = b \<and> target l = a))"

text \<open>
  Invariants of the pair of maps inside \<open>handleGraphUpdate\<close>: every node is stored under
  its id, every link under its key, and the endpoints of every link are keys of the node
  map.
\<close>

definition nodeKeysOk :: "(jsid, GraphNode) jsmap \<Rightarrow> bool" where
  "nodeKeysOk nm = list_all (\<lambda>e. node_id (snd e) = fst e) nm"

definition linkKeysOk :: "(string, GraphLink) jsmap \<Rightarrow> bool" where
  "linkKeysOk lm = list_all (\<lambda>e. link_key (source (snd e)) (target (snd e)) = fst e) lm"

definition linksClosed :: "(jsid, GraphNode) jsmap \<Rightarrow> (string, GraphLink) jsmap \<Rightarrow> bool" where
  "linksClosed nm lm =
     list_all (\<lambda>e. map_has nm (source (snd e)) \<and> map_has nm (target (snd e))) lm"

text \<open>
  Sample nodes: \<open>a\<close> at the origin, \<open>b\<close> 100 to its right, \<open>c\<close> not placed yet.
\<close>

definition sampleNodes :: "GraphNode list" where
  "sampleNodes =
     [\<lparr>node_id = Str ''a'', node_label = Str ''A'', val = 10, node_x = Some 0, node_y = Some 0\<rparr>,
      \<lparr>node_id = Str ''b'', node_label = Str ''B'', val = 5, node_x = Some 100, node_y = Some 0\<rparr>,
      \<lparr>node_id = Str ''c'', node_label = Str ''C'', val = 5, node_x = None, node_y = None\<rparr>]"

definition sampleCursor :: "real \<Rightarrow> real \<Rightarrow> HandCursor" where
  "sampleCursor cx cy = \<lparr>cursor_x = cx, cursor_y = cy, cursor_isPinching = False\<rparr>"

text \<open>
  Sample calls: the first introduces \<open>a\<close> with nothing focused; the second, with \<open>a\<close>
  focused, introduces \<open>b\<close>, relates \<open>b\<close> to \<open>a\<close> and names a relationship from the
  unknown node \<open>x\<close>.
\<close>

definition sampleCalls :: "(Update \<times> jsid option) list" where
  "sampleCalls =
     [(\<lparr>concepts = Some [\<lparr>c_id = Str ''a'', c_label = Str ''A'', importance = 10\<rparr>],
        relationships = Some []\<rparr>, None),
      (\<lparr>concepts = Some [\<lparr>c_id = Str ''b'', c_label = Str ''B'', importance = 4\<rparr>],
        relationships = Some [\<lparr>source_id = Str ''b'', target_id = Str ''a'', strength = 2\<rparr>,
                              \<lparr>source_id = Str ''x'', target_id = Str ''a'', strength = 4\<rparr>]\<rparr>,
       Some (Str ''a''))]"

definition nodeA :: GraphNode where
  "nodeA = \<lparr>node_id = Str ''a'', node_label = Str ''A'', val = 10, node_x = None, node_y = None\<rparr>"

definition nodeB :: GraphNode where
  "nodeB = \<lparr>node_id = Str ''b'', node_label = Str ''B'', val = 5, node_x = None, node_y = None\<rparr>"

definition graphAB :: GraphData where
  "graphAB = \<lparr>nodes = [nodeA, nodeB],
              links = [\<lparr>source = Str ''a'', target = Str ''b'', link_value = 4\<rparr>]\<rparr>"

text \<open>
  Sample updates: a concept \<open>c\<close> that is new to \<open>graphAB\<close>; a batch whose first concept
  has no id and whose second has no label, followed by a well-formed concept and a
  relationship; and a relationship that names the link of \<open>graphAB\<close> in the other
  direction, and one that names it in its own direction.
\<close>

definition conceptC :: Concept where
  "conceptC = \<lparr>c_id = Str ''c'', c_label = Str ''C'', importance = 7\<rparr>"

definition updateC :: Update where
  "updateC = \<lparr>concepts = Some [conceptC], relationships = Some []\<rparr>"

definition malformedBatch :: Update where
  "malformedBatch =
     \<lparr>concepts = Some [\<lparr>c_id = Undefined, c_label = Str ''X'', importance = 5\<rparr>,
                       \<lparr>c_id = Str ''m'', c_label = Undefined, importance = 6\<rparr>,
                       conceptC],
      relationships = Some [\<lparr>source_id = Str ''m'', target_id = Str ''c'', strength = 2\<rparr>]\<rparr>"

definition reverseUpdate :: Update where
  "reverseUpdate =
     \<lparr>concepts = None,
      relationships = Some [\<lparr>source_id = Str ''b'', target_id = Str ''a'', strength = 2\<rparr>]\<rparr>"

definition forwardUpdate :: Update where
  "forwardUpdate =
     \<lparr>concepts = None,
      relationships = Some [\<lparr>source_id = Str ''a'', target_id = Str ''b'', strength = 2\<rparr>]\<rparr>"

text \<open>
  Sample graph with an id that holds the separator: the nodes \<open>x\<close>, \<open>x-y\<close> and \<open>z\<close> and the
  link from \<open>x-y\<close> to \<open>z\<close>, as one update builds it from the empty graph, and an update
  that introduces the concept \<open>y-z\<close>.
\<close>

definition collisionSetup :: Update where
  "collisionSetup =
     \<lparr>concepts = Some [\<lparr>c_id = Str ''x'', c_label = Str ''X'', importance = 5\<rparr>,
                       \<lparr>c_id = Str ''x-y'', c_label = Str ''XY'', importance = 5\<rparr>,
                       \<lparr>c_id = Str ''z'', c_label = Str ''Z'', importance = 5\<rparr>],
      relationships = Some [\<lparr>source_id = Str ''x-y'', target_id = Str ''z'', strength = 2\<rparr>]\<rparr>"

definition collisionGraph :: GraphData where
  "collisionGraph =
     \<lparr>nodes = [\<lparr>node_id = Str ''x'', node_label = Str ''X'', val = 5,
                 node_x = None, node_y = None\<rparr>,
               \<lparr>node_id = Str ''x-y'', node_label = Str ''XY'', val = 5,
                 node_x = None, node_y = None\<rparr>,
               \<lparr>node_id = Str ''z'', node_label = Str ''Z'', val = 5,
                 node_x = None, node_y = None\<rparr>],
      links = [\<lparr>source = Str ''x-y'', target = Str ''z'', link_value = 2\<rparr>]\<rparr>"

definition collisionUpdate :: Update where
  "collisionUpdate =
     \<lparr>concepts = Some [\<lparr>c_id = Str ''y-z'', c_label = Str ''YZ'', importance = 4\<rparr>],
      relationships = Some []\<rparr>"

section \<open>Properties of the gesture state machine\<close>

subsection \<open>The thresholds without the square root\<close>

lemma sqrt_of_square: "0 \<le> b \<Longrightarrow> b * b = c \<Longrightarrow> sqrt c = (b::real)"
  using real_sqrt_abs2 [of b] by auto

lemma sqrt_lt_sq: "0 < b \<Longrightarrow> b * b = c \<Longrightarrow> (sqrt a < b) = (a < c)"
  using real_sqrt_less_iff [of a c] sqrt_of_square [of b c] by simp

lemma sqrt_gt_sq: "0 \<le> b \<Longrightarrow> b * b = c \<Longrightarrow> (b < sqrt a) = (c < a)"
  using real_sqrt_less_iff [of c a] sqrt_of_square [of b c] by simp

lemma isPinching_iff:
  "isPinching t i \<longleftrightarrow> (lm_x t - lm_x i)\<^sup>2 + (lm_y t - lm_y i)\<^sup>2 < 0.0025"
  unfolding isPinching_def pinchDist_def by (rule sqrt_lt_sq) simp_all

lemma isOpen_iff:
  "isOpen t i \<longleftrightarrow> 0.04 < (lm_x t - lm_x i)\<^sup>2 + (lm_y t - lm_y i)\<^sup>2"
  unfolding isOpen_def pinchDist_def by (rule sqrt_gt_sq) simp_all

lemma pinch_step_state:
  "pinchingFrame fr \<Longrightarrow>
   fst (predictWebcam st fr) =
     st\<lparr>pinchDuration := pinchDuration st + 1, spreadDuration := 0,
        hasTriggered := hasTriggered st \<or> (5 \<le> pinchDuration st \<and> truthy (hoveredNodeId fr))\<rparr>"
  by (auto simp: pinchingFrame_def predictWebcam_def Let_def split: option.splits prod.splits)

lemma pinch_step_event:
  "pinchingFrame fr \<Longrightarrow>
   fst (snd (predictWebcam st fr)) =
     (if 5 \<le> pinchDuration st \<and> \<not> hasTriggered st \<and> truthy (hoveredNodeId fr)
         \<and> focusedNodeId fr \<noteq> hoveredNodeId fr
      then Some (Select (hoveredNodeId fr)) else None)"
  by (auto simp: pinchingFrame_def predictWebcam_def Let_def split: option.splits prod.splits)

lemma open_step_state:
  "openFrame fr \<Longrightarrow>
   fst (predictWebcam st fr) =
     st\<lparr>spreadDuration := spreadDuration st + 1, pinchDuration := 0,
        hasTriggered := hasTriggered st \<or> 8 \<le> spreadDuration st\<rparr>"
  by (auto simp: openFrame_def predictWebcam_def Let_def split: option.splits prod.splits)

lemma open_step_event:
  "openFrame fr \<Longrightarrow>
   fst (snd (predictWebcam st fr)) =
     (if 8 \<le> spreadDuration st \<and> \<not> hasTriggered st \<and> truthy (focusedNodeId fr)
      then Some Deselect else None)"
  by (auto simp: openFrame_def predictWebcam_def Let_def split: option.splits prod.splits)

lemma neutral_step:
  "neutralFrame fr \<Longrightarrow>
   fst (predictWebcam st fr) = st\<lparr>pinchDuration := 0, spreadDuration := 0, hasTriggered := False\<rparr>
   \<and> fst (snd (predictWebcam st fr)) = None"
  by (auto simp: neutralFrame_def predictWebcam_def Let_def split: option.splits prod.splits)

lemma nohand_step:
  "landmarks fr = None \<Longrightarrow>
   fst (predictWebcam st fr) = st\<lparr>pinchDuration := 0, spreadDuration := 0\<rparr>
   \<and> fst (snd (predictWebcam st fr)) = None"
  by (simp add: predictWebcam_def)

lemma frame_cases:
  "landmarks fr = None \<or> pinchingFrame fr \<or> openFrame fr \<or> neutralFrame fr"
  by (auto simp: pinchingFrame_def openFrame_def neutralFrame_def split: option.splits)

lemma runFrames_Cons:
  "runFrames st (fr # frs) =
     (fst (runFrames (fst (predictWebcam st fr)) frs),
      (case fst (snd (predictWebcam st fr)) of Some e \<Rightarrow> [e] | None \<Rightarrow> [])
        @ snd (runFrames (fst (predictWebcam st fr)) frs))"
  by (simp split: prod.splits option.splits)

lemma runFrames_append:
  "runFrames st (as @ bs) =
     (fst (runFrames (fst (runFrames st as)) bs),
      snd (runFrames st as) @ snd (runFrames (fst (runFrames st as)) bs))"
  by (induction as arbitrary: st) (simp_all add: runFrames_Cons del: runFrames.simps(2))

subsection \<open>One step and a run of steps\<close>

lemma pinch_run_armed:
  "hasTriggered st \<Longrightarrow> \<forall>f\<in>set fs. pinchingFrame f \<Longrightarrow>
   snd (runFrames st fs) = [] \<and> hasTriggered (fst (runFrames st fs))"
proof (induction fs arbitrary: st)
  case Nil
  then show ?case by simp
next
  case (Cons f fs)
  let ?st1 = "fst (predictWebcam st f)"
  from Cons.prems have pf: "pinchingFrame f" by simp
  have "hasTriggered ?st1" using Cons.prems(1) by (simp add: pinch_step_state [OF pf])
  moreover have "fst (snd (predictWebcam st f)) = None"
    using Cons.prems(1) by (simp add: pinch_step_event [OF pf])
  ultimately show ?case
    using Cons.IH [of ?st1] Cons.prems(2) by (simp add: runFrames_Cons del: runFrames.simps)
qed

lemma pinch_run_unarmed:
  "\<not> hasTriggered st \<Longrightarrow> truthy h \<Longrightarrow>
   \<forall>f\<in>set fs. pinchingFrame f \<and> hoveredNodeId f = h \<and> focusedNodeId f \<noteq> h \<Longrightarrow>
   pinchDuration st \<le> 5 \<Longrightarrow>
   snd (runFrames st fs) = (if 5 < pinchDuration st + length fs then [Select h] else [])"
proof (induction fs arbitrary: st)
  case Nil
  then show ?case by simp
next
  case (Cons f fs)
  let ?st1 = "fst (predictWebcam st f)"
  from Cons.prems have pf: "pinchingFrame f" and hv: "hoveredNodeId f = h"
    and fo: "focusedNodeId f \<noteq> h" and rest: "\<forall>f\<in>set fs. pinchingFrame f" by simp_all
  show ?case
  proof (cases "5 \<le> pinchDuration st")
    case True
    then have "hasTriggered ?st1"
      using Cons.prems(2) hv by (simp add: pinch_step_state [OF pf])
    then have "snd (runFrames ?st1 fs) = []" using pinch_run_armed rest by blast
    moreover have "fst (snd (predictWebcam st f)) = Some (Select h)"
      using True Cons.prems(1,2) hv fo by (simp add: pinch_step_event [OF pf])
    ultimately show ?thesis using True by (simp add: runFrames_Cons del: runFrames.simps)
  next
    case False
    then have nt: "\<not> hasTriggered ?st1" and pd: "pinchDuration ?st1 = pinchDuration st + 1"
      using Cons.prems(1) by (simp_all add: pinch_step_state [OF pf])
    have ev: "fst (snd (predictWebcam st f)) = None"
      using False by (simp add: pinch_step_event [OF pf])
    have "snd (runFrames ?st1 fs) = (if 5 < pinchDuration ?st1 + length fs then [Select h] else [])"
      using Cons.IH [OF nt Cons.prems(2)] Cons.prems(3) False pd by simp
    then show ?thesis using ev pd by (simp add: runFrames_Cons del: runFrames.simps)
  qed
qed

lemma step_not_neutral:
  assumes "\<not> neutralFrame fr"
  shows "(hasTriggered st \<longrightarrow> hasTriggered (fst (predictWebcam st fr))
            \<and> fst (snd (predictWebcam st fr)) = None)
       \<and> (fst (snd (predictWebcam st fr)) \<noteq> None \<longrightarrow> hasTriggered (fst (predictWebcam st fr)))"
proof -
  consider "landmarks fr = None" | "pinchingFrame fr" | "openFrame fr"
    using frame_cases [of fr] assms by auto
  then show ?thesis
  proof cases
    case 1 then show ?thesis by (simp add: nohand_step)
  next
    case 2 then show ?thesis by (simp add: pinch_step_state pinch_step_event)
  next
    case 3 then show ?thesis by (simp add: open_step_state open_step_event)
  qed
qed

lemma run_not_neutral_bound:
  "\<forall>f\<in>set fs. \<not> neutralFrame f \<Longrightarrow>
   length (snd (runFrames st fs)) \<le> (if hasTriggered st then 0 else 1)"
proof (induction fs arbitrary: st)
  case Nil
  then show ?case by simp
next
  case (Cons f fs)
  let ?st1 = "fst (predictWebcam st f)"
  let ?ev = "fst (snd (predictWebcam st f))"
  from Cons.prems have nf: "\<not> neutralFrame f" by simp
  have ih: "length (snd (runFrames ?st1 fs)) \<le> (if hasTriggered ?st1 then 0 else 1)"
    using Cons.IH [of ?st1] Cons.prems by simp
  show ?case
  proof (cases ?ev)
    case None
    then show ?thesis
      using ih step_not_neutral [OF nf, of st]
      by (auto simp: runFrames_Cons simp del: runFrames.simps split: if_splits)
  next
    case (Some e)
    then show ?thesis
      using ih step_not_neutral [OF nf, of st]
      by (auto simp: runFrames_Cons simp del: runFrames.simps split: if_splits)
  qed
qed


lemma pinchAt_pinching: "pinchingFrame (pinchAt h f)"
  by (simp add: pinchAt_def pinchingFrame_def isPinching_iff)

lemma neutralAt_neutral: "neutralFrame (neutralAt h f)"
  by (simp add: neutralAt_def neutralFrame_def isPinching_iff isOpen_iff power2_eq_square)

lemma openAt_open: "openFrame (openAt h f)"
  by (simp add: openAt_def openFrame_def isPinching_iff isOpen_iff power2_eq_square)

lemma openAt_not_neutral: "\<not> neutralFrame (openAt h f)"
  by (simp add: openAt_def neutralFrame_def isPinching_iff isOpen_iff power2_eq_square)

lemma pinchAt_not_neutral: "\<not> neutralFrame (pinchAt h f)"
  by (simp add: pinchAt_def neutralFrame_def isPinching_iff)

subsection \<open>Claims about the gesture state machine\<close>

text \<open>
  C5. From a state with both counters 0 and \<open>hasTriggered\<close> false, ten consecutive
  pinching frames whose hover id is a stable non-empty id \<open>h\<close> different from the focus
  raise exactly one \<open>Select h\<close>; one hundred further such frames raise nothing; one
  neutral frame followed by six more such pinching frames raises exactly one further
  \<open>Select h\<close>. The hover id counts as present when \<open>if (hoveredNodeId)\<close> accepts it, and
  the focus is an input of every frame, here different from \<open>h\<close> on each of them.
\<close>

theorem gesture_debounce_select:
  assumes "truthy h"
    and "pinchDuration st = 0" and "spreadDuration st = 0" and "\<not> hasTriggered st"
    and "length fs1 = 10" and "length fs2 = 100" and "length fs3 = 6"
    and "\<forall>f\<in>set (fs1 @ fs2 @ fs3).
           pinchingFrame f \<and> hoveredNodeId f = h \<and> focusedNodeId f \<noteq> h"
    and "neutralFrame n"
  shows "snd (runFrames st fs1) = [Select h]
       \<and> snd (runFrames (fst (runFrames st fs1)) fs2) = []
       \<and> snd (runFrames (fst (runFrames st (fs1 @ fs2))) (n # fs3)) = [Select h]"
proof -
  from assms(8) have p1: "\<forall>f\<in>set fs1. pinchingFrame f \<and> hoveredNodeId f = h \<and> focusedNodeId f \<noteq> h"
    and p2: "\<forall>f\<in>set fs2. pinchingFrame f"
    and p3: "\<forall>f\<in>set fs3. pinchingFrame f \<and> hoveredNodeId f = h \<and> focusedNodeId f \<noteq> h"
    by simp_all
  have e1: "snd (runFrames st fs1) = [Select h]"
    using pinch_run_unarmed [OF assms(4) assms(1) p1] assms(2,5) by simp
  have "\<forall>f\<in>set (fs1 @ fs2). pinchingFrame f" using p1 p2 by auto
  moreover have "\<not> neutralFrame f" if "pinchingFrame f" for f
    using that by (auto simp: pinchingFrame_def neutralFrame_def split: option.splits)
  ultimately have nn: "\<forall>f\<in>set (fs1 @ fs2). \<not> neutralFrame f" by blast
  have "length (snd (runFrames st (fs1 @ fs2))) \<le> 1"
    using run_not_neutral_bound [OF nn, of st] assms(4) by simp
  then have e2: "snd (runFrames (fst (runFrames st fs1)) fs2) = []"
    using e1 by (simp add: runFrames_append)
  let ?s = "fst (runFrames st (fs1 @ fs2))"
  let ?s1 = "fst (predictWebcam ?s n)"
  have s1: "?s1 = ?s\<lparr>pinchDuration := 0, spreadDuration := 0, hasTriggered := False\<rparr>"
    and ev: "fst (snd (predictWebcam ?s n)) = None"
    using neutral_step [OF assms(9), of ?s] by simp_all
  have "snd (runFrames ?s1 fs3) = [Select h]"
    using pinch_run_unarmed [of ?s1 h fs3] assms(1,7) p3 by (simp add: s1)
  then have e3: "snd (runFrames ?s (n # fs3)) = [Select h]"
    using ev by (simp add: runFrames_Cons del: runFrames.simps)
  from e1 e2 e3 show ?thesis by simp
qed

theorem gesture_debounce_select_witness:
  "truthy (Some (Str ''h'')) \<and> pinchingFrame (pinchAt (Some (Str ''h'')) None)
   \<and> neutralFrame (neutralAt (Some (Str ''h'')) None)
   \<and> snd (runFrames initialGesture (replicate 10 (pinchAt (Some (Str ''h'')) None)))
       = [Select (Some (Str ''h''))]
   \<and> snd (runFrames (fst (runFrames initialGesture (replicate 10 (pinchAt (Some (Str ''h'')) None))))
            (replicate 100 (pinchAt (Some (Str ''h'')) None))) = []
   \<and> snd (runFrames (fst (runFrames initialGesture
              (replicate 10 (pinchAt (Some (Str ''h'')) None) @ replicate 100 (pinchAt (Some (Str ''h'')) None))))
            (neutralAt (Some (Str ''h'')) None # replicate 6 (pinchAt (Some (Str ''h'')) None)))
       = [Select (Some (Str ''h''))]"
  using gesture_debounce_select [of "Some (Str ''h'')" initialGesture
      "replicate 10 (pinchAt (Some (Str ''h'')) None)" "replicate 100 (pinchAt (Some (Str ''h'')) None)"
      "replicate 6 (pinchAt (Some (Str ''h'')) None)" "neutralAt (Some (Str ''h'')) None"]
    pinchAt_pinching [of "Some (Str ''h'')" None] neutralAt_neutral [of "Some (Str ''h'')" None]
  by (simp add: initialGesture_def pinchAt_def neutralAt_def)

text \<open>
  C6, as the code has it. On a pinching frame that takes the pinch counter above 5 while
  \<open>hasTriggered\<close> is false, \<open>hasTriggered\<close> becomes true exactly when the hover id is
  non-empty: \<open>Select\<close> is raised when the hover differs from the focus, nothing is raised
  when it equals the focus. With an empty hover id \<open>hasTriggered\<close> stays false and nothing
  is raised, so the next pinching frame evaluates the trigger again and raises \<open>Select\<close>
  as soon as a hover id different from the focus is present.
\<close>

theorem pinch_threshold_arming:
  assumes "pinchingFrame fr" and "5 < pinchDuration st + 1" and "\<not> hasTriggered st"
    and "pinchingFrame fr2"
  shows "hasTriggered (fst (predictWebcam st fr)) = truthy (hoveredNodeId fr)
       \<and> fst (snd (predictWebcam st fr)) =
           (if truthy (hoveredNodeId fr) \<and> focusedNodeId fr \<noteq> hoveredNodeId fr
            then Some (Select (hoveredNodeId fr)) else None)
       \<and> fst (snd (predictWebcam (fst (predictWebcam st fr)) fr2)) =
           (if \<not> truthy (hoveredNodeId fr) \<and> truthy (hoveredNodeId fr2)
               \<and> focusedNodeId fr2 \<noteq> hoveredNodeId fr2
            then Some (Select (hoveredNodeId fr2)) else None)"
  using assms(2,3)
  by (simp add: pinch_step_state [OF assms(1)] pinch_step_event [OF assms(1)]
      pinch_step_event [OF assms(4)])

theorem pinch_threshold_arming_witness:
  "pinchingFrame (pinchAt (Some (Str ''a'')) (Some (Str ''a'')))
   \<and> hasTriggered (fst (predictWebcam
         \<lparr>pinchDuration = 5, spreadDuration = 0, hasTriggered = False\<rparr>
         (pinchAt (Some (Str ''a'')) (Some (Str ''a'')))))
   \<and> fst (snd (predictWebcam
         \<lparr>pinchDuration = 5, spreadDuration = 0, hasTriggered = False\<rparr>
         (pinchAt (Some (Str ''a'')) (Some (Str ''a''))))) = None"
  using pinch_threshold_arming [of "pinchAt (Some (Str ''a'')) (Some (Str ''a''))"
      "\<lparr>pinchDuration = 5, spreadDuration = 0, hasTriggered = False\<rparr>"
      "pinchAt (Some (Str ''a'')) (Some (Str ''a''))"]
    pinchAt_pinching [of "Some (Str ''a'')" "Some (Str ''a'')"]
  by (simp add: pinchAt_def)

text \<open>
  C6, as the claim states it, fails: with the pinch counter at 5, \<open>hasTriggered\<close> false
  and no hover id, the pinching frame takes the counter to 6 and leaves \<open>hasTriggered\<close>
  false.
\<close>

theorem pinch_empty_hover_not_armed:
  "pinchingFrame (pinchAt None None)
   \<and> 5 < pinchDuration (fst (predictWebcam
         \<lparr>pinchDuration = 5, spreadDuration = 0, hasTriggered = False\<rparr> (pinchAt None None)))
   \<and> \<not> hasTriggered (fst (predictWebcam
         \<lparr>pinchDuration = 5, spreadDuration = 0, hasTriggered = False\<rparr> (pinchAt None None)))"
  by (simp add: pinchAt_def pinchingFrame_def predictWebcam_def isPinching_iff)

text \<open>
  C7. A frame sequence without a neutral frame, started with \<open>hasTriggered\<close> false,
  raises at most one event, whatever the hover and focus ids of its frames are and however
  pinching frames, open frames and frames without a hand alternate. A sequence of pinching
  frames, one neutral frame and pinching frames again can raise a second \<open>Select\<close>.
\<close>

theorem sustained_gesture_single_event:
  assumes "\<forall>f\<in>set fs. \<not> neutralFrame f" and "\<not> hasTriggered st"
  shows "length (snd (runFrames st fs)) \<le> 1
       \<and> snd (runFrames initialGesture
              (replicate 6 (pinchAt (Some (Str ''a'')) None) @ [neutralAt (Some (Str ''a'')) (Some (Str ''a''))]
                 @ replicate 6 (pinchAt (Some (Str ''b'')) (Some (Str ''a'')))))
           = [Select (Some (Str ''a'')), Select (Some (Str ''b''))]"
proof -
  have "length (snd (runFrames st fs)) \<le> 1"
    using run_not_neutral_bound [OF assms(1), of st] assms(2) by simp
  moreover have "snd (runFrames initialGesture
              (replicate 6 (pinchAt (Some (Str ''a'')) None) @ [neutralAt (Some (Str ''a'')) (Some (Str ''a''))]
                 @ replicate 6 (pinchAt (Some (Str ''b'')) (Some (Str ''a'')))))
           = [Select (Some (Str ''a'')), Select (Some (Str ''b''))]"
    by (simp add: initialGesture_def pinchAt_def neutralAt_def predictWebcam_def
        isPinching_iff isOpen_iff numeral_eq_Suc power2_eq_square)
  ultimately show ?thesis by simp
qed

theorem sustained_gesture_single_event_witness:
  "\<not> neutralFrame (pinchAt (Some (Str ''a'')) None) \<and> \<not> neutralFrame (openAt (Some (Str ''a'')) (Some (Str ''a'')))
   \<and> \<not> hasTriggered initialGesture
   \<and> length (snd (runFrames initialGesture
        (replicate 10 (pinchAt (Some (Str ''a'')) None) @ replicate 10 (openAt (Some (Str ''a'')) (Some (Str ''a'')))))) \<le> 1"
  using sustained_gesture_single_event [of
      "replicate 10 (pinchAt (Some (Str ''a'')) None) @ replicate 10 (openAt (Some (Str ''a'')) (Some (Str ''a'')))"
      initialGesture]
    pinchAt_not_neutral [of "Some (Str ''a'')" None] openAt_not_neutral [of "Some (Str ''a'')" "Some (Str ''a'')"]
  by (simp add: initialGesture_def)

section \<open>Properties of the hit test\<close>

lemma hitProjection_viewTransform:
  "viewTransform True w h z f ns = Some (hitProjection w h z f ns)"
  by (simp add: viewTransform_def hitProjection_def Let_def split: option.splits)

lemma hitStep_nodeDist:
  "hitStep w h z f ns cx cy acc n =
     (case nodeDist (hitProjection w h z f ns) (cx, cy) n of
        Some d \<Rightarrow> if d < snd acc then (Some (node_id n), d) else acc
      | None \<Rightarrow> acc)"
  by (simp add: hitStep_def nodeDist_def pixelDist_def applyTransform_def Let_def
      split: option.splits)

lemma hit_fold_none:
  "\<forall>n\<in>set ms. \<forall>d. nodeDist (hitProjection w h z f ns) (cx, cy) n = Some d \<longrightarrow> snd acc \<le> d \<Longrightarrow>
   foldl (hitStep w h z f ns cx cy) acc ms = acc"
  by (induction ms arbitrary: acc) (auto simp: hitStep_nodeDist split: option.splits)

lemma hit_fold_bound:
  "snd (foldl (hitStep w h z f ns cx cy) acc ms) \<le> snd acc"
proof (induction ms arbitrary: acc)
  case Nil then show ?case by simp
next
  case (Cons n ms)
  have "snd (hitStep w h z f ns cx cy acc n) \<le> snd acc"
    by (auto simp: hitStep_nodeDist split: option.splits)
  then show ?case using Cons.IH [of "hitStep w h z f ns cx cy acc n"] by simp
qed

lemma hit_fold_min:
  "n \<in> set ms \<Longrightarrow> nodeDist (hitProjection w h z f ns) (cx, cy) n = Some d \<Longrightarrow> snd (foldl (hitStep w h z f ns cx cy) acc ms) \<le> d"
proof (induction ms arbitrary: acc)
  case Nil then show ?case by simp
next
  case (Cons m ms)
  show ?case
  proof (cases "n = m")
    case True
    then have "snd (hitStep w h z f ns cx cy acc m) \<le> d"
      using Cons.prems(2) by (auto simp: hitStep_nodeDist)
    then show ?thesis using hit_fold_bound [of w h z f ns cx cy "hitStep w h z f ns cx cy acc m" ms] by simp
  next
    case False
    then show ?thesis using Cons by simp
  qed
qed

lemma hit_fold_origin:
  "foldl (hitStep w h z f ns cx cy) acc ms = acc \<or>
   (\<exists>n\<in>set ms. nodeDist (hitProjection w h z f ns) (cx, cy) n = Some (snd (foldl (hitStep w h z f ns cx cy) acc ms))
       \<and> fst (foldl (hitStep w h z f ns cx cy) acc ms) = Some (node_id n)
       \<and> snd (foldl (hitStep w h z f ns cx cy) acc ms) < snd acc)"
proof (induction ms arbitrary: acc)
  case Nil then show ?case by simp
next
  case (Cons m ms)
  let ?a = "hitStep w h z f ns cx cy acc m"
  have a: "?a = acc \<or> (nodeDist (hitProjection w h z f ns) (cx, cy) m = Some (snd ?a) \<and> fst ?a = Some (node_id m) \<and> snd ?a < snd acc)"
    by (auto simp: hitStep_nodeDist split: option.splits)
  have le: "snd ?a \<le> snd acc" by (auto simp: hitStep_nodeDist split: option.splits)
  from Cons.IH [of ?a] show ?case
  proof
    assume "foldl (hitStep w h z f ns cx cy) ?a ms = ?a"
    then show ?thesis using a by auto
  next
    assume "\<exists>n\<in>set ms. nodeDist (hitProjection w h z f ns) (cx, cy) n = Some (snd (foldl (hitStep w h z f ns cx cy) ?a ms))
       \<and> fst (foldl (hitStep w h z f ns cx cy) ?a ms) = Some (node_id n)
       \<and> snd (foldl (hitStep w h z f ns cx cy) ?a ms) < snd ?a"
    then show ?thesis using le by auto
  qed
qed


lemma hitTest_fold:
  "ns \<noteq> [] \<Longrightarrow>
   hitTest True (Some c) w h z f ns a =
     fst (foldl (hitStep w h z f ns (cursor_x c * w) (cursor_y c * h)) (None, 70) ns)"
  by (simp add: hitTest_def Let_def)

lemma hitTest_empty: "hitTest svg cur w h z f [] a = (if truthy a then None else a)"
  by (simp add: hitTest_def split: option.splits)

lemma pixelDist_nonneg: "0 \<le> pixelDist p q"
  by (simp add: pixelDist_def)

lemma pixelDist_self: "pixelDist p p = 0"
  by (simp add: pixelDist_def)

lemma hit_far:
  assumes "\<forall>n\<in>set ns. \<forall>d. nodeDist (hitProjection w h z f ns) (cursor_x c * w, cursor_y c * h) n = Some d \<longrightarrow> 70 < d"
    and "a = None \<or> truthy a"
  shows "hitTest True (Some c) w h z f ns a = None"
proof (cases "ns = []")
  case True
  then show ?thesis using assms(2) by (auto simp: hitTest_empty)
next
  case False
  have "foldl (hitStep w h z f ns (cursor_x c * w) (cursor_y c * h)) (None, 70) ns = (None, 70)"
    by (rule hit_fold_none) (use assms(1) in fastforce)
  then show ?thesis using False by (simp add: hitTest_fold)
qed

lemma hit_nearest:
  assumes "n \<in> set ns"
    and "nodeDist (hitProjection w h z f ns) (cursor_x c * w, cursor_y c * h) n = Some d"
    and "d < 70"
  shows "\<exists>m\<in>set ns. \<exists>e. nodeDist (hitProjection w h z f ns) (cursor_x c * w, cursor_y c * h) m = Some e
           \<and> e < 70 \<and> hitTest True (Some c) w h z f ns a = Some (node_id m)
           \<and> (\<forall>n'\<in>set ns. \<forall>d'. nodeDist (hitProjection w h z f ns) (cursor_x c * w, cursor_y c * h) n' = Some d' \<longrightarrow> e \<le> d')"
proof -
  let ?r = "foldl (hitStep w h z f ns (cursor_x c * w) (cursor_y c * h)) (None, 70) ns"
  have ne: "ns \<noteq> []" using assms(1) by auto
  have "snd ?r \<le> d" by (rule hit_fold_min [OF assms(1,2)])
  then have "?r \<noteq> (None, 70)" using assms(3) by auto
  then obtain m where m: "m \<in> set ns"
      "nodeDist (hitProjection w h z f ns) (cursor_x c * w, cursor_y c * h) m = Some (snd ?r)"
      "fst ?r = Some (node_id m)" "snd ?r < 70"
    using hit_fold_origin [of w h z f ns "cursor_x c * w" "cursor_y c * h" "(None, 70)" ns] by auto
  have "\<forall>n'\<in>set ns. \<forall>d'. nodeDist (hitProjection w h z f ns) (cursor_x c * w, cursor_y c * h) n' = Some d' \<longrightarrow> snd ?r \<le> d'"
    using hit_fold_min by blast
  then show ?thesis using m ne by (auto simp: hitTest_fold)
qed

lemma hit_exact:
  assumes "n \<in> set ns" and "node_x n = Some x" and "node_y n = Some y"
    and "applyTransform (hitProjection w h z f ns) x y = (cursor_x c * w, cursor_y c * h)"
    and "\<forall>m\<in>set ns. m \<noteq> n \<longrightarrow> nodeDist (hitProjection w h z f ns) (cursor_x c * w, cursor_y c * h) m \<noteq> Some 0"
  shows "hitTest True (Some c) w h z f ns a = Some (node_id n)"
proof -
  let ?T = "hitProjection w h z f ns" and ?p = "(cursor_x c * w, cursor_y c * h)"
  have d0: "nodeDist ?T ?p n = Some 0"
    using assms(2,3,4) by (simp add: nodeDist_def pixelDist_self)
  from hit_nearest [OF assms(1) d0, of a]
  obtain m e where m: "m \<in> set ns" "nodeDist ?T ?p m = Some e"
    "hitTest True (Some c) w h z f ns a = Some (node_id m)"
    "\<forall>n'\<in>set ns. \<forall>d'. nodeDist ?T ?p n' = Some d' \<longrightarrow> e \<le> d'"
    by auto
  have "e \<le> 0" using m(4) assms(1) d0 by blast
  moreover have "0 \<le> e" using m(2) by (auto simp: nodeDist_def pixelDist_nonneg split: option.splits)
  ultimately have "nodeDist ?T ?p m = Some 0" using m(2) by simp
  then have "m = n" using assms(5) m(1) by blast
  then show ?thesis using m(3) by simp
qed

subsection \<open>Claims about the hit test and the view transform\<close>

text \<open>
  C8. Let \<open>T\<close> be the transform that the zoom and focus effect has set for the current
  zoom level and focus, and \<open>px\<close> the pixel of the cursor sample. If \<open>px\<close> is exactly the
  place of a node under \<open>T\<close> and no other node lies at distance 0 from \<open>px\<close>, the hit
  test resolves to that node. If every placed node is farther than 70 pixels from \<open>px\<close>,
  it resolves to \<open>null\<close> (the hover id held so far being \<open>null\<close> or a non-empty id). If
  some placed node is nearer than 70 pixels, it resolves to a placed node that is nearer
  than 70 pixels and at least as near as every other placed node.
\<close>

theorem hit_test_consistency:
  assumes "viewTransform True w h z f ns = Some T"
    and "px = (cursor_x c * w, cursor_y c * h)"
  shows "(\<forall>n\<in>set ns. \<forall>x y. node_x n = Some x \<and> node_y n = Some y
             \<and> applyTransform T x y = px
             \<and> (\<forall>m\<in>set ns. m \<noteq> n \<longrightarrow> nodeDist T px m \<noteq> Some 0)
           \<longrightarrow> hitTest True (Some c) w h z f ns a = Some (node_id n))
       \<and> ((\<forall>n\<in>set ns. \<forall>d. nodeDist T px n = Some d \<longrightarrow> 70 < d) \<and> (a = None \<or> truthy a)
           \<longrightarrow> hitTest True (Some c) w h z f ns a = None)
       \<and> (\<forall>n\<in>set ns. \<forall>d. nodeDist T px n = Some d \<and> d < 70
           \<longrightarrow> (\<exists>m\<in>set ns. \<exists>e. nodeDist T px m = Some e \<and> e < 70
                  \<and> hitTest True (Some c) w h z f ns a = Some (node_id m)
                  \<and> (\<forall>n'\<in>set ns. \<forall>d'. nodeDist T px n' = Some d' \<longrightarrow> e \<le> d')))"
proof -
  have T: "T = hitProjection w h z f ns"
    using assms(1) by (simp add: hitProjection_viewTransform)
  have 1: "hitTest True (Some c) w h z f ns a = Some (node_id n)"
    if "n \<in> set ns" "node_x n = Some x" "node_y n = Some y" "applyTransform T x y = px"
      "\<forall>m\<in>set ns. m \<noteq> n \<longrightarrow> nodeDist T px m \<noteq> Some 0" for n x y
    using that hit_exact [of n ns x y w h z f c a] unfolding T assms(2) by blast
  have 2: "hitTest True (Some c) w h z f ns a = None"
    if "\<forall>n\<in>set ns. \<forall>d. nodeDist T px n = Some d \<longrightarrow> 70 < d" "a = None \<or> truthy a"
    using that unfolding T assms(2) by (rule hit_far)
  have 3: "\<exists>m\<in>set ns. \<exists>e. nodeDist T px m = Some e \<and> e < 70
                  \<and> hitTest True (Some c) w h z f ns a = Some (node_id m)
                  \<and> (\<forall>n'\<in>set ns. \<forall>d'. nodeDist T px n' = Some d' \<longrightarrow> e \<le> d')"
    if "n \<in> set ns" "nodeDist T px n = Some d" "d < 70" for n d
    using that hit_nearest [of n ns w h z f c d a] unfolding T assms(2) by blast
  show ?thesis
    apply (intro conjI ballI allI impI)
    subgoal for n x y using 1 [of n x y] by blast
    subgoal by (elim conjE) (rule 2)
    subgoal for n d using 3 [of n d] by blast
    done
qed

theorem hit_test_consistency_witness:
  "viewTransform True 1000 800 1 None sampleNodes = Some \<lparr>t_x = 500, t_y = 400, t_k = 1\<rparr>
   \<and> applyTransform \<lparr>t_x = 500, t_y = 400, t_k = 1\<rparr> 0 0 = (0.5 * 1000, 0.5 * 800)
   \<and> hitTest True (Some (sampleCursor 0.5 0.5)) 1000 800 1 None sampleNodes None = Some (Str ''a'')
   \<and> hitTest True (Some (sampleCursor 0 0)) 1000 800 1 None sampleNodes (Some (Str ''a'')) = None"
proof -
  have vt: "viewTransform True 1000 800 1 None sampleNodes = Some \<lparr>t_x = 500, t_y = 400, t_k = 1\<rparr>"
    by (simp add: viewTransform_def)
  have px: "(500::real, 400::real) = (cursor_x (sampleCursor 0.5 0.5) * 1000, cursor_y (sampleCursor 0.5 0.5) * 800)"
    by (simp add: sampleCursor_def)
  have p0: "(0::real, 0::real) = (cursor_x (sampleCursor 0 0) * 1000, cursor_y (sampleCursor 0 0) * 800)"
    by (simp add: sampleCursor_def)
  have ap: "applyTransform \<lparr>t_x = 500, t_y = 400, t_k = 1\<rparr> 0 0 = (500, 400)"
    by (simp add: applyTransform_def)
  have near: "hitTest True (Some (sampleCursor 0.5 0.5)) 1000 800 1 None sampleNodes None = Some (Str ''a'')"
    using hit_test_consistency [OF vt px, of None] ap
    by (simp add: sampleNodes_def nodeDist_def pixelDist_def applyTransform_def)
  have far: "hitTest True (Some (sampleCursor 0 0)) 1000 800 1 None sampleNodes (Some (Str ''a'')) = None"
    using hit_test_consistency [OF vt p0, of "Some (Str ''a'')"]
    by (simp add: sampleNodes_def nodeDist_def pixelDist_def applyTransform_def
        sqrt_gt_sq [of 70 4900])
  show ?thesis using vt ap near far by simp
qed

lemma placeNode_id: "node_id (placeNode place e) = node_id (snd e)"
  by (simp add: placeNode_def)

lemma find_placed:
  "find (\<lambda>n. Some (node_id n) = f) ns = Some fn \<Longrightarrow>
   \<exists>i<length ns. ns ! i = fn
      \<and> find (\<lambda>n. Some (node_id n) = f) (map (placeNode place) (enumerate k ns))
          = Some (placeNode place (k + i, fn))"
proof (induction ns arbitrary: k)
  case Nil
  then show ?case by simp
next
  case (Cons a ns)
  show ?case
  proof (cases "Some (node_id a) = f")
    case True
    then have "a = fn" using Cons.prems by simp
    then show ?thesis using True by (auto simp: placeNode_id intro!: exI [of _ 0])
  next
    case False
    then have "find (\<lambda>n. Some (node_id n) = f) ns = Some fn" using Cons.prems by simp
    from Cons.IH [OF this, of "Suc k"]
    obtain i where i: "i < length ns" "ns ! i = fn"
      "find (\<lambda>n. Some (node_id n) = f) (map (placeNode place) (enumerate (Suc k) ns))
          = Some (placeNode place (Suc k + i, fn))" by blast
    then show ?thesis using False by (auto simp: placeNode_id intro!: exI [of _ "Suc i"])
  qed
qed

lemma find_placed_none:
  "find (\<lambda>n. Some (node_id n) = f) ns = None \<Longrightarrow>
   find (\<lambda>n. Some (node_id n) = f) (map (placeNode place) (enumerate k ns)) = None"
  by (induction ns arbitrary: k) (auto simp: placeNode_id split: if_splits)

lemma placeNode_unplaced:
  "node_x fn = None \<or> node_y fn = None \<Longrightarrow>
   node_x (placeNode place (i, fn)) = Some (fst (place i))
   \<and> node_y (placeNode place (i, fn)) = Some (snd (place i))"
  by (auto simp: placeNode_def)

text \<open>
  C10, as the code has it. Let a node id be focused in a commit that runs the three
  effects. The hit test, which runs first, uses \<open>translate(width/2, height/2)
  scale(zoomLevel)\<close> when no node has the focused id and when the node found for it has no
  \<open>x\<close> or no \<open>y\<close> yet. The zoom and focus effect runs after the layout has given every
  node a position: it sets the same unfocused transform when no node has the focused id,
  but for a node that had no position it sets \<open>translate(width/2 - x * 1.2, height/2 - y *
  1.2) scale(1.2)\<close> with the position \<open>(x, y)\<close> that the layout has just given the node.
\<close>

theorem unplaced_focus_commit:
  assumes "truthy f"
  shows "(find (\<lambda>n. Some (node_id n) = f) ns = None \<longrightarrow>
            hitProjection w h z f ns = \<lparr>t_x = w / 2, t_y = h / 2, t_k = z\<rparr>
          \<and> snd (snd (commitEffects place True cur w h z f ns a))
              = Some \<lparr>t_x = w / 2, t_y = h / 2, t_k = z\<rparr>)
       \<and> (\<forall>fn. find (\<lambda>n. Some (node_id n) = f) ns = Some fn
                \<and> (node_x fn = None \<or> node_y fn = None) \<longrightarrow>
            hitProjection w h z f ns = \<lparr>t_x = w / 2, t_y = h / 2, t_k = z\<rparr>
          \<and> (\<exists>i<length ns. ns ! i = fn
                \<and> snd (snd (commitEffects place True cur w h z f ns a))
                    = Some \<lparr>t_x = w / 2 - fst (place i) * 1.2,
                            t_y = h / 2 - snd (place i) * 1.2, t_k = 1.2\<rparr>))"
proof (intro conjI impI allI)
  assume none: "find (\<lambda>n. Some (node_id n) = f) ns = None"
  then show "hitProjection w h z f ns = \<lparr>t_x = w / 2, t_y = h / 2, t_k = z\<rparr>"
    by (simp add: hitProjection_def Let_def)
  show "snd (snd (commitEffects place True cur w h z f ns a))
              = Some \<lparr>t_x = w / 2, t_y = h / 2, t_k = z\<rparr>"
    using find_placed_none [OF none, of place 0] assms
    by (simp add: commitEffects_def simulationNodes_def viewTransform_def Let_def)
next
  fix fn
  assume fn: "find (\<lambda>n. Some (node_id n) = f) ns = Some fn
                \<and> (node_x fn = None \<or> node_y fn = None)"
  then show "hitProjection w h z f ns = \<lparr>t_x = w / 2, t_y = h / 2, t_k = z\<rparr>"
    by (auto simp: hitProjection_def Let_def split: option.splits)
  from fn find_placed [of f ns fn place 0]
  obtain i where i: "i < length ns" "ns ! i = fn"
    "find (\<lambda>n. Some (node_id n) = f) (map (placeNode place) (enumerate 0 ns))
          = Some (placeNode place (i, fn))" by auto
  have "snd (snd (commitEffects place True cur w h z f ns a))
                    = Some \<lparr>t_x = w / 2 - fst (place i) * 1.2,
                            t_y = h / 2 - snd (place i) * 1.2, t_k = 1.2\<rparr>"
    using i(3) assms placeNode_unplaced [of fn place i] fn
    by (simp add: commitEffects_def simulationNodes_def viewTransform_def Let_def)
  then show "\<exists>i<length ns. ns ! i = fn
                \<and> snd (snd (commitEffects place True cur w h z f ns a))
                    = Some \<lparr>t_x = w / 2 - fst (place i) * 1.2,
                            t_y = h / 2 - snd (place i) * 1.2, t_k = 1.2\<rparr>"
    using i(1,2) by blast
qed

theorem unplaced_focus_commit_witness:
  "truthy (Some (Str ''c''))
   \<and> hitProjection 1000 800 2 (Some (Str ''c'')) sampleNodes = \<lparr>t_x = 500, t_y = 400, t_k = 2\<rparr>
   \<and> map_option t_k
        (snd (snd (commitEffects d3Place True None 1000 800 2 (Some (Str ''c'')) sampleNodes None)))
       = Some 1.2"
proof -
  have t: "truthy (Some (Str ''c''))" by simp
  have f: "find (\<lambda>n. Some (node_id n) = Some (Str ''c'')) sampleNodes
      = Some \<lparr>node_id = Str ''c'', node_label = Str ''C'', val = 5, node_x = None, node_y = None\<rparr>"
    by (simp add: sampleNodes_def)
  from unplaced_focus_commit [OF t, of sampleNodes 1000 800 2 d3Place None None] f
  have "hitProjection 1000 800 2 (Some (Str ''c'')) sampleNodes = \<lparr>t_x = 500, t_y = 400, t_k = 2\<rparr>"
    and "\<exists>i. snd (snd (commitEffects d3Place True None 1000 800 2 (Some (Str ''c'')) sampleNodes None))
        = Some \<lparr>t_x = 1000 / 2 - fst (d3Place i) * 1.2, t_y = 800 / 2 - snd (d3Place i) * 1.2,
                t_k = 1.2\<rparr>"
    by auto
  then show ?thesis using t by auto
qed

text \<open>
  C10, as the claim states it, fails: with \<open>c\<close> focused and not placed yet, at zoom level
  2 in a window of 1000 by 800, the hit test projects with \<open>translate(500, 400) scale(2)\<close>
  while the commit leaves the view at scale 1.2, centred on the place that the layout gave
  to \<open>c\<close>.
\<close>

theorem unplaced_focus_view_not_fallback:
  "find (\<lambda>n. Some (node_id n) = Some (Str ''c'')) sampleNodes
      = Some \<lparr>node_id = Str ''c'', node_label = Str ''C'', val = 5, node_x = None, node_y = None\<rparr>
   \<and> hitProjection 1000 800 2 (Some (Str ''c'')) sampleNodes = \<lparr>t_x = 500, t_y = 400, t_k = 2\<rparr>
   \<and> snd (snd (commitEffects d3Place True None 1000 800 2 (Some (Str ''c'')) sampleNodes None))
       = Some \<lparr>t_x = 500 - fst (d3Place 2) * 1.2, t_y = 400 - snd (d3Place 2) * 1.2, t_k = 1.2\<rparr>
   \<and> snd (snd (commitEffects d3Place True None 1000 800 2 (Some (Str ''c'')) sampleNodes None))
       \<noteq> Some \<lparr>t_x = 500, t_y = 400, t_k = 2\<rparr>"
  by (simp add: sampleNodes_def hitProjection_def commitEffects_def simulationNodes_def
      placeNode_def viewTransform_def hitTest_def Let_def numeral_2_eq_2 [symmetric])

section \<open>Properties of the graph merge\<close>

subsection \<open>The insertion-ordered map\<close>

lemma map_has_iff: "map_has m k \<longleftrightarrow> k \<in> fst ` set m"
  by (simp add: map_has_def map_of_eq_None_iff)

lemma map_get_None_iff: "map_get m k = None \<longleftrightarrow> k \<notin> fst ` set m"
  by (simp add: map_get_def map_of_eq_None_iff)

lemma map_get_SomeD: "map_get m k = Some v \<Longrightarrow> (k, v) \<in> set m"
  by (simp add: map_get_def map_of_SomeD)

lemma map_set_keys: "fst ` set (map_set m k v) = insert k (fst ` set m)"
  by (simp add: map_set_def dom_update)

lemma map_set_subset: "set (map_set m k v) \<subseteq> insert (k, v) (set m)"
  unfolding map_set_def by (induction m) auto

lemma map_set_distinct: "distinct (map fst m) \<Longrightarrow> distinct (map fst (map_set m k v))"
  by (simp add: map_set_def distinct_update)

lemma map_set_new: "k \<notin> fst ` set m \<Longrightarrow> map_set m k v = m @ [(k, v)]"
  unfolding map_set_def by (induction m) auto

lemma map_set_mem: "(k, v) \<in> set (map_set m k v)"
  unfolding map_set_def by (induction m) auto

lemma map_set_length: "k \<in> fst ` set m \<Longrightarrow> length (map_set m k v) = length m"
  unfolding map_set_def by (induction m) auto

lemma map_has_set: "map_has (map_set m k v) k' \<longleftrightarrow> k' = k \<or> map_has m k'"
  by (auto simp: map_has_iff map_set_keys)

lemma fold_set_keys:
  "fst ` set (foldl (\<lambda>m (k, v). map_set m k v) m es) = fst ` set m \<union> fst ` set es"
proof (induction es arbitrary: m)
  case Nil then show ?case by simp
next
  case (Cons e es)
  obtain k v where e: "e = (k, v)" by (cases e)
  show ?case using Cons.IH [of "map_set m k v"] by (simp add: e map_set_keys)
qed

lemma fold_set_subset:
  "set (foldl (\<lambda>m (k, v). map_set m k v) m es) \<subseteq> set m \<union> set es"
proof (induction es arbitrary: m)
  case Nil then show ?case by simp
next
  case (Cons e es)
  obtain k v where e: "e = (k, v)" by (cases e)
  show ?case using Cons [of "map_set m k v"] map_set_subset [of m k v] by (auto simp: e)
qed

lemma fold_set_distinct:
  "distinct (map fst m) \<Longrightarrow> distinct (map fst (foldl (\<lambda>m (k, v). map_set m k v) m es))"
  by (induction es arbitrary: m) (auto simp: map_set_distinct split: prod.splits)

lemma fold_set_id:
  "distinct (map fst (m @ es)) \<Longrightarrow> foldl (\<lambda>m (k, v). map_set m k v) m es = m @ es"
proof (induction es arbitrary: m)
  case Nil then show ?case by simp
next
  case (Cons e es)
  obtain k v where e: "e = (k, v)" by (cases e)
  have "k \<notin> fst ` set m" using Cons.prems by (auto simp: e)
  then have "map_set m k v = m @ [(k, v)]" by (rule map_set_new)
  then show ?case using Cons.IH [of "m @ [(k, v)]"] Cons.prems by (simp add: e)
qed

lemma new_Map_keys: "fst ` set (new_Map es) = fst ` set es"
  by (simp add: new_Map_def fold_set_keys)

lemma new_Map_subset: "set (new_Map es) \<subseteq> set es"
  using fold_set_subset [of "[]" es] by (simp add: new_Map_def)

lemma new_Map_distinct: "distinct (map fst (new_Map es))"
  by (simp add: new_Map_def fold_set_distinct)

lemma new_Map_id: "distinct (map fst es) \<Longrightarrow> new_Map es = es"
  using fold_set_id [of "[]" es] by (simp add: new_Map_def)

subsection \<open>Invariants of the two maps\<close>

lemma nodeKeysOk_iff: "nodeKeysOk nm \<longleftrightarrow> (\<forall>(k, n)\<in>set nm. node_id n = k)"
  by (auto simp: nodeKeysOk_def list_all_iff)

lemma linkKeysOk_iff:
  "linkKeysOk lm \<longleftrightarrow> (\<forall>(k, l)\<in>set lm. link_key (source l) (target l) = k)"
  by (auto simp: linkKeysOk_def list_all_iff)

lemma linksClosed_iff:
  "linksClosed nm lm \<longleftrightarrow>
     (\<forall>e\<in>set lm. map_has nm (source (snd e)) \<and> map_has nm (target (snd e)))"
  by (simp add: linksClosed_def list_all_iff)

lemma nodeKeysOk_new: "nodeKeysOk (new_Map (map (\<lambda>n. (node_id n, n)) ns))"
  using new_Map_subset [of "map (\<lambda>n. (node_id n, n)) ns"] by (auto simp: nodeKeysOk_iff)

lemma linkKeysOk_new:
  "linkKeysOk (new_Map (map (\<lambda>l. (link_key (source l) (target l), l)) ls))"
  using new_Map_subset [of "map (\<lambda>l. (link_key (source l) (target l), l)) ls"]
  by (auto simp: linkKeysOk_iff)

lemma nodeKeysOk_set: "nodeKeysOk nm \<Longrightarrow> node_id n = k \<Longrightarrow> nodeKeysOk (map_set nm k n)"
  using map_set_subset [of nm k n] by (auto simp: nodeKeysOk_iff)

lemma linkKeysOk_set:
  "linkKeysOk lm \<Longrightarrow> link_key (source l) (target l) = k \<Longrightarrow> linkKeysOk (map_set lm k l)"
  using map_set_subset [of lm k l] by (auto simp: linkKeysOk_iff)

lemma linksClosed_set_node: "linksClosed nm lm \<Longrightarrow> linksClosed (map_set nm k n) lm"
  by (simp add: linksClosed_iff map_has_set)

lemma linksClosed_set_link:
  "linksClosed nm lm \<Longrightarrow> map_has nm (source l) \<Longrightarrow> map_has nm (target l) \<Longrightarrow>
   linksClosed nm (map_set lm k l)"
  using map_set_subset [of lm k l] by (fastforce simp: linksClosed_iff)

lemma nodeKeysOk_get:
  "nodeKeysOk nm \<Longrightarrow> map_get nm k = Some n \<Longrightarrow> node_id n = k"
  by (auto simp: nodeKeysOk_iff dest: map_get_SomeD)

lemma linkKeysOk_get:
  "linkKeysOk lm \<Longrightarrow> map_get lm k = Some l \<Longrightarrow> link_key (source l) (target l) = k"
  by (auto simp: linkKeysOk_iff dest: map_get_SomeD)

lemma linksClosed_get:
  "linksClosed nm lm \<Longrightarrow> map_get lm k = Some l \<Longrightarrow>
   map_has nm (source l) \<and> map_has nm (target l)"
  by (fastforce simp: linksClosed_iff dest: map_get_SomeD)

subsection \<open>The two loops keep the invariants\<close>

lemma conceptStep_has:
  "map_has (fst (conceptStep f st c)) k \<longleftrightarrow> k = c_id c \<or> map_has (fst st) k"
  by (simp add: conceptStep_def Let_def map_has_set split: option.splits)

lemma conceptStep_nodeKeysOk:
  "nodeKeysOk (fst st) \<Longrightarrow> nodeKeysOk (fst (conceptStep f st c))"
  by (auto simp: conceptStep_def Let_def split: option.splits
      intro!: nodeKeysOk_set dest: nodeKeysOk_get)

lemma conceptStep_linkKeysOk:
  "linkKeysOk (snd st) \<Longrightarrow> linkKeysOk (snd (conceptStep f st c))"
  by (auto simp: conceptStep_def Let_def split: option.splits intro!: linkKeysOk_set)

lemma conceptStep_linksClosed:
  assumes "linksClosed (fst st) (snd st)"
    and "\<forall>i. f = Some i \<and> truthy f \<longrightarrow> map_has (fst st) i"
  shows "linksClosed (fst (conceptStep f st c)) (snd (conceptStep f st c))"
proof (cases "map_get (fst st) (c_id c)")
  case (Some existing)
  then show ?thesis
    using assms(1) by (simp add: conceptStep_def Let_def linksClosed_set_node)
next
  case None
  let ?n = "\<lparr>node_id = c_id c, node_label = c_label c, val = importance c,
             node_x = None, node_y = None\<rparr>"
  let ?nm = "map_set (fst st) (c_id c) ?n"
  have closed: "linksClosed ?nm (snd st)" using assms(1) by (rule linksClosed_set_node)
  show ?thesis
  proof (cases f)
    case None
    then show ?thesis
      using \<open>map_get (fst st) (c_id c) = None\<close> closed by (simp add: conceptStep_def Let_def)
  next
    case (Some i)
    have "linksClosed ?nm (map_set (snd st) k \<lparr>source = i, target = c_id c, link_value = 3\<rparr>)"
      if "truthy f" for k
      using closed that assms(2) Some
      by (intro linksClosed_set_link) (simp_all add: map_has_set)
    then show ?thesis
      using \<open>map_get (fst st) (c_id c) = None\<close> closed Some
      by (simp add: conceptStep_def Let_def)
  qed
qed

lemma relationshipStep_nodes: "fst (relationshipStep st r) = fst st"
  by (simp add: relationshipStep_def Let_def split: option.splits)

lemma relationshipStep_linkKeysOk:
  "linkKeysOk (snd st) \<Longrightarrow> linkKeysOk (snd (relationshipStep st r))"
  by (auto simp: relationshipStep_def Let_def split: option.splits
      intro!: linkKeysOk_set dest: linkKeysOk_get)

lemma relationshipStep_linksClosed:
  "linksClosed (fst st) (snd st) \<Longrightarrow>
   linksClosed (fst (relationshipStep st r)) (snd (relationshipStep st r))"
  by (auto simp: relationshipStep_def Let_def split: option.splits
      intro!: linksClosed_set_link dest: linksClosed_get)


subsection \<open>No dangling links\<close>

lemma concepts_fold_inv:
  assumes "nodeKeysOk (fst st)" and "linkKeysOk (snd st)" and "linksClosed (fst st) (snd st)"
    and "\<forall>i. f = Some i \<and> truthy f \<longrightarrow> map_has (fst st) i"
  shows "nodeKeysOk (fst (foldl (conceptStep f) st cs))
       \<and> linkKeysOk (snd (foldl (conceptStep f) st cs))
       \<and> linksClosed (fst (foldl (conceptStep f) st cs)) (snd (foldl (conceptStep f) st cs))"
  using assms
proof (induction cs arbitrary: st)
  case Nil
  then show ?case by simp
next
  case (Cons c cs)
  have "\<forall>i. f = Some i \<and> truthy f \<longrightarrow> map_has (fst (conceptStep f st c)) i"
    using Cons.prems(4) by (auto simp: conceptStep_has)
  then show ?case
    using Cons.IH [of "conceptStep f st c"] Cons.prems
    by (simp add: conceptStep_nodeKeysOk conceptStep_linkKeysOk conceptStep_linksClosed)
qed

lemma relationships_fold_nodes: "fst (foldl relationshipStep st rs) = fst st"
  by (induction rs arbitrary: st) (simp_all add: relationshipStep_nodes)

lemma relationships_fold_inv:
  assumes "linkKeysOk (snd st)" and "linksClosed (fst st) (snd st)"
  shows "linkKeysOk (snd (foldl relationshipStep st rs))
       \<and> linksClosed (fst (foldl relationshipStep st rs)) (snd (foldl relationshipStep st rs))"
  using assms
proof (induction rs arbitrary: st)
  case Nil
  then show ?case by simp
next
  case (Cons r rs)
  then show ?case
    using Cons.IH [of "relationshipStep st r"]
    by (simp add: relationshipStep_linkKeysOk relationshipStep_linksClosed)
qed

text \<open>The pair of maps after both loops.\<close>

lemma handleGraphUpdate_maps:
  "handleGraphUpdate g u f =
     \<lparr>nodes = map_values (fst (mergeMaps g u f)), links = map_values (snd (mergeMaps g u f))\<rparr>"
  by (simp add: handleGraphUpdate_def mergeMaps_def Let_def)

lemma nodeIds_values: "nodeKeysOk nm \<Longrightarrow> map node_id (map_values nm) = map fst nm"
  by (induction nm) (auto simp: nodeKeysOk_def map_values_def)

lemma noDangling_iff:
  "noDangling g \<longleftrightarrow>
     (\<forall>l\<in>set (links g). source l \<in> set (nodeIds g) \<and> target l \<in> set (nodeIds g))"
  by (simp add: noDangling_def list_all_iff)

lemma initial_maps_closed:
  assumes "noDangling g"
  shows "linksClosed (new_Map (map (\<lambda>n. (node_id n, n)) (nodes g)))
           (new_Map (map (\<lambda>l. (link_key (source l) (target l), l)) (links g)))"
proof -
  have has: "map_has (new_Map (map (\<lambda>n. (node_id n, n)) (nodes g))) k \<longleftrightarrow> k \<in> set (nodeIds g)"
    for k
    by (simp add: map_has_iff new_Map_keys nodeIds_def image_image)
  have "snd e \<in> set (links g)"
    if "e \<in> set (new_Map (map (\<lambda>l. (link_key (source l) (target l), l)) (links g)))" for e
    using that new_Map_subset [of "map (\<lambda>l. (link_key (source l) (target l), l)) (links g)"]
    by auto
  then show ?thesis
    using assms by (auto simp: linksClosed_iff has noDangling_iff)
qed

lemma mergeMaps_inv:
  assumes "noDangling g" and "truthy f \<longrightarrow> f \<in> set (map Some (nodeIds g))"
  shows "nodeKeysOk (fst (mergeMaps g u f)) \<and> linkKeysOk (snd (mergeMaps g u f))
       \<and> linksClosed (fst (mergeMaps g u f)) (snd (mergeMaps g u f))"
proof -
  let ?nm = "new_Map (map (\<lambda>n. (node_id n, n)) (nodes g))"
  let ?lm = "new_Map (map (\<lambda>l. (link_key (source l) (target l), l)) (links g))"
  let ?st1 = "case concepts u of Some cs \<Rightarrow> foldl (conceptStep f) (?nm, ?lm) cs
              | None \<Rightarrow> (?nm, ?lm)"
  have foc: "\<forall>i. f = Some i \<and> truthy f \<longrightarrow> map_has ?nm i"
    using assms(2) by (auto simp: map_has_iff new_Map_keys nodeIds_def image_image)
  have st0: "nodeKeysOk ?nm \<and> linkKeysOk ?lm \<and> linksClosed ?nm ?lm"
    using initial_maps_closed [OF assms(1)] by (simp add: nodeKeysOk_new linkKeysOk_new)
  have st1: "nodeKeysOk (fst ?st1) \<and> linkKeysOk (snd ?st1) \<and> linksClosed (fst ?st1) (snd ?st1)"
    using st0 foc concepts_fold_inv [of "(?nm, ?lm)" f] by (simp split: option.splits)
  show ?thesis
    using st1 relationships_fold_inv [of ?st1] 
    by (simp add: mergeMaps_def Let_def relationships_fold_nodes split: option.splits)
qed

lemma handleGraphUpdate_noDangling:
  assumes "noDangling g" and "truthy f \<longrightarrow> f \<in> set (map Some (nodeIds g))"
  shows "noDangling (handleGraphUpdate g u f)"
proof -
  from mergeMaps_inv [OF assms, of u]
  have ok: "nodeKeysOk (fst (mergeMaps g u f))"
    and cl: "linksClosed (fst (mergeMaps g u f)) (snd (mergeMaps g u f))" by simp_all
  have ids: "set (nodeIds (handleGraphUpdate g u f)) = fst ` set (fst (mergeMaps g u f))"
    using nodeIds_values [OF ok] by (simp add: handleGraphUpdate_maps nodeIds_def)
  have "links (handleGraphUpdate g u f) = map snd (snd (mergeMaps g u f))"
    by (simp add: handleGraphUpdate_maps map_values_def)
  then show ?thesis
    unfolding noDangling_iff ids using cl by (fastforce simp: linksClosed_iff map_has_iff)
qed

lemma applyUpdates_noDangling:
  "noDangling g \<Longrightarrow> focusValid g calls \<Longrightarrow> \<forall>g'\<in>set (applyUpdates g calls). noDangling g'"
proof (induction calls arbitrary: g)
  case Nil
  then show ?case by simp
next
  case (Cons call calls)
  have "noDangling (handleGraphUpdate g (fst call) (snd call))"
    using Cons.prems by (simp add: handleGraphUpdate_noDangling)
  then show ?case using Cons.IH Cons.prems by simp
qed

lemmas merge_eval = handleGraphUpdate_def new_Map_def map_set_def map_get_def map_has_def
  map_values_def conceptStep_def relationshipStep_def link_key_def Let_def emptyGraph_def
  nodeIds_def

subsection \<open>Claims about the graph merge\<close>

text \<open>
  C1. Start from the empty graph and apply any sequence of updates in which the focus of
  every call, when it is set, is the id of a node of the graph that the call starts
  from. Then in every graph on the way and in the last one, both endpoints of every link
  are ids of nodes of that graph.
\<close>

theorem no_dangling_links:
  assumes "focusValid emptyGraph calls"
  shows "\<forall>g\<in>set (applyUpdates emptyGraph calls). noDangling g"
proof -
  have "noDangling emptyGraph" by (simp add: noDangling_def emptyGraph_def)
  then show ?thesis using assms by (rule applyUpdates_noDangling)
qed

theorem no_dangling_links_witness:
  "focusValid emptyGraph sampleCalls
   \<and> length (links (last (applyUpdates emptyGraph sampleCalls))) = 2
   \<and> noDangling (last (applyUpdates emptyGraph sampleCalls))"
proof -
  have fv: "focusValid emptyGraph sampleCalls"
    by (simp add: sampleCalls_def merge_eval)
  have len: "length (links (last (applyUpdates emptyGraph sampleCalls))) = 2"
    by (simp add: sampleCalls_def merge_eval)
  have "last (applyUpdates emptyGraph sampleCalls) \<in> set (applyUpdates emptyGraph sampleCalls)"
    by (rule last_in_set) (simp add: sampleCalls_def)
  then have "noDangling (last (applyUpdates emptyGraph sampleCalls))"
    using no_dangling_links [OF fv] by blast
  then show ?thesis using fv len by simp
qed

lemma values_update_distinct:
  "distinct (map node_id (ns::GraphNode list)) \<Longrightarrow> n \<in> set ns \<Longrightarrow>
   map snd (AList.update (node_id n) v (map (\<lambda>m. (node_id m, m)) ns))
     = map (\<lambda>m. if node_id m = node_id n then v else m) ns"
proof (induction ns)
  case Nil then show ?case by simp
next
  case (Cons a ns)
  show ?case
  proof (cases "node_id a = node_id n")
    case True
    then have "node_id n \<notin> node_id ` set ns" using Cons.prems(1) by simp
    then have "\<forall>m\<in>set ns. node_id m \<noteq> node_id n" by (metis imageI)
    then have "map (\<lambda>m. if node_id m = node_id n then v else m) ns = ns"
      by (induction ns) auto
    then show ?thesis using True by (simp add: comp_def)
  next
    case False
    then have "n \<in> set ns" using Cons.prems(2) by auto
    then show ?thesis using Cons False by simp
  qed
qed

lemma get_distinct:
  "distinct (map node_id (ns::GraphNode list)) \<Longrightarrow> n \<in> set ns \<Longrightarrow>
   map_of (map (\<lambda>m. (node_id m, m)) ns) (node_id n) = Some n"
  by (rule map_of_is_SomeI) (auto simp: comp_def)

text \<open>
  C3. In a graph whose node ids are distinct and that holds a node \<open>n\<close> with the id of
  the concept \<open>c\<close>, applying an update whose concepts are \<open>[c]\<close> leaves the number of
  nodes unchanged and replaces \<open>n\<close> in place by \<open>n\<close> with the importance
  \<open>min 20 (val n + importance c * 0.5)\<close>; a node of importance 10 that receives importance
  10 ends at 15.
\<close>

theorem repeated_concept_grows_importance:
  assumes "distinct (nodeIds g)"
    and "n \<in> set (nodes g)" and "node_id n = c_id c"
    and "concepts u = Some [c]"
  shows "length (nodes (handleGraphUpdate g u f)) = length (nodes g)
       \<and> nodes (handleGraphUpdate g u f)
           = map (\<lambda>m. if node_id m = c_id c
                       then n\<lparr>val := min 20 (val n + importance c * 0.5)\<rparr> else m) (nodes g)
       \<and> (\<forall>m\<in>set (nodes (handleGraphUpdate g u f)).
             node_id m = c_id c \<longrightarrow> val m = min 20 (val n + importance c * 0.5))"
proof -
  let ?es = "map (\<lambda>m. (node_id m, m)) (nodes g)"
  let ?n' = "n\<lparr>val := min 20 (val n + importance c * 0.5)\<rparr>"
  have d: "distinct (map node_id (nodes g))" using assms(1) by (simp add: nodeIds_def)
  have nm0: "new_Map ?es = ?es" using d by (intro new_Map_id) (simp add: comp_def)
  have get: "map_get ?es (c_id c) = Some n"
    using get_distinct [OF d assms(2)] assms(3) by (simp add: map_get_def)
  have "fst (mergeMaps g u f) = map_set ?es (c_id c) ?n'"
    using assms(4) get
    by (simp add: mergeMaps_def Let_def nm0 relationships_fold_nodes conceptStep_def
        split: option.splits)
  then have eq: "nodes (handleGraphUpdate g u f)
      = map (\<lambda>m. if node_id m = c_id c then ?n' else m) (nodes g)"
    using values_update_distinct [OF d assms(2), of ?n'] assms(3)
    by (simp add: handleGraphUpdate_maps map_values_def map_set_def)
  show ?thesis unfolding eq by auto
qed

theorem repeated_concept_grows_importance_witness:
  "distinct (nodeIds graphAB) \<and> nodeA \<in> set (nodes graphAB) \<and> val nodeA = 10
   \<and> nodes (handleGraphUpdate graphAB
        \<lparr>concepts = Some [\<lparr>c_id = Str ''a'', c_label = Str ''A'', importance = 10\<rparr>],
         relationships = None\<rparr> None)
     = [nodeA\<lparr>val := 15\<rparr>, nodeB]"
  using repeated_concept_grows_importance [of graphAB nodeA
      "\<lparr>c_id = Str ''a'', c_label = Str ''A'', importance = 10\<rparr>"
      "\<lparr>concepts = Some [\<lparr>c_id = Str ''a'', c_label = Str ''A'', importance = 10\<rparr>],
         relationships = None\<rparr>" None]
  by (simp add: graphAB_def nodeA_def nodeB_def nodeIds_def)

subsection \<open>Keys stay distinct, concept ids become nodes\<close>

lemma conceptStep_distinct:
  "distinct (map fst (fst st)) \<Longrightarrow> distinct (map fst (snd st)) \<Longrightarrow>
   distinct (map fst (fst (conceptStep f st c))) \<and> distinct (map fst (snd (conceptStep f st c)))"
  by (simp add: conceptStep_def Let_def map_set_distinct split: option.splits)

lemma relationshipStep_distinct:
  "distinct (map fst (snd st)) \<Longrightarrow> distinct (map fst (snd (relationshipStep st r)))"
  by (simp add: relationshipStep_def Let_def map_set_distinct split: option.splits)

lemma concepts_fold_keys:
  assumes "nodeKeysOk (fst st)" and "linkKeysOk (snd st)"
    and "distinct (map fst (fst st))" and "distinct (map fst (snd st))"
  shows "nodeKeysOk (fst (foldl (conceptStep f) st cs))
       \<and> linkKeysOk (snd (foldl (conceptStep f) st cs))
       \<and> distinct (map fst (fst (foldl (conceptStep f) st cs)))
       \<and> distinct (map fst (snd (foldl (conceptStep f) st cs)))"
  using assms
proof (induction cs arbitrary: st)
  case Nil
  then show ?case by simp
next
  case (Cons c cs)
  then show ?case
    using Cons.IH [of "conceptStep f st c"]
    by (simp add: conceptStep_nodeKeysOk conceptStep_linkKeysOk conceptStep_distinct)
qed

lemma relationships_fold_keys:
  assumes "linkKeysOk (snd st)" and "distinct (map fst (snd st))"
  shows "linkKeysOk (snd (foldl relationshipStep st rs))
       \<and> distinct (map fst (snd (foldl relationshipStep st rs)))"
  using assms
proof (induction rs arbitrary: st)
  case Nil
  then show ?case by simp
next
  case (Cons r rs)
  then show ?case
    using Cons.IH [of "relationshipStep st r"]
    by (simp add: relationshipStep_linkKeysOk relationshipStep_distinct)
qed

lemma mergeMaps_keys:
  "nodeKeysOk (fst (mergeMaps g u f)) \<and> linkKeysOk (snd (mergeMaps g u f))
   \<and> distinct (map fst (fst (mergeMaps g u f))) \<and> distinct (map fst (snd (mergeMaps g u f)))"
proof -
  let ?nm = "new_Map (map (\<lambda>n. (node_id n, n)) (nodes g))"
  let ?lm = "new_Map (map (\<lambda>l. (link_key (source l) (target l), l)) (links g))"
  let ?st1 = "case concepts u of Some cs \<Rightarrow> foldl (conceptStep f) (?nm, ?lm) cs
              | None \<Rightarrow> (?nm, ?lm)"
  have st1: "nodeKeysOk (fst ?st1) \<and> linkKeysOk (snd ?st1)
      \<and> distinct (map fst (fst ?st1)) \<and> distinct (map fst (snd ?st1))"
    using concepts_fold_keys [of "(?nm, ?lm)" f]
    by (simp add: nodeKeysOk_new linkKeysOk_new new_Map_distinct split: option.splits)
  show ?thesis
    using st1 relationships_fold_keys [of ?st1]
    by (simp add: mergeMaps_def Let_def relationships_fold_nodes split: option.splits)
qed

lemma linkKeys_values:
  "linkKeysOk lm \<Longrightarrow> map (\<lambda>l. (link_key (source l) (target l), l)) (map_values lm) = lm"
  by (induction lm) (auto simp: linkKeysOk_def map_values_def)

lemma nodeKeys_values:
  "nodeKeysOk nm \<Longrightarrow> map (\<lambda>n. (node_id n, n)) (map_values nm) = nm"
  by (induction nm) (auto simp: nodeKeysOk_def map_values_def)

lemma handleGraphUpdate_distinct_nodes: "distinct (nodeIds (handleGraphUpdate g u f))"
  using mergeMaps_keys [of g u f] nodeIds_values [of "fst (mergeMaps g u f)"]
  by (simp add: handleGraphUpdate_maps nodeIds_def)

text \<open>Rebuilding the two maps from a graph that \<open>handleGraphUpdate\<close> returned gives the
  maps it was made from.\<close>

lemma rebuild_links:
  "new_Map (map (\<lambda>l. (link_key (source l) (target l), l)) (links (handleGraphUpdate g u f)))
     = snd (mergeMaps g u f)"
  using mergeMaps_keys [of g u f]
  by (simp add: handleGraphUpdate_maps linkKeys_values new_Map_id)

lemma rebuild_nodes:
  "new_Map (map (\<lambda>n. (node_id n, n)) (nodes (handleGraphUpdate g u f))) = fst (mergeMaps g u f)"
  using mergeMaps_keys [of g u f]
  by (simp add: handleGraphUpdate_maps nodeKeys_values new_Map_id)


lemma concepts_fold_has:
  "map_has (fst (foldl (conceptStep f) st cs)) k
     \<longleftrightarrow> k \<in> c_id ` set cs \<or> map_has (fst st) k"
  by (induction cs arbitrary: st) (auto simp: conceptStep_has)

lemma mergeMaps_has:
  "map_has (fst (mergeMaps g u f)) k \<longleftrightarrow>
     k \<in> set (nodeIds g) \<or> (case concepts u of Some cs \<Rightarrow> k \<in> c_id ` set cs | None \<Rightarrow> False)"
proof -
  have "map_has (new_Map (map (\<lambda>n. (node_id n, n)) (nodes g))) k \<longleftrightarrow> k \<in> set (nodeIds g)"
    by (simp add: map_has_iff new_Map_keys nodeIds_def image_image)
  then show ?thesis
    by (auto simp: mergeMaps_def Let_def relationships_fold_nodes concepts_fold_has
        split: option.splits)
qed

lemma nodeIds_update:
  "set (nodeIds (handleGraphUpdate g u f)) = {k. map_has (fst (mergeMaps g u f)) k}"
  using mergeMaps_keys [of g u f] nodeIds_values [of "fst (mergeMaps g u f)"]
  by (auto simp: handleGraphUpdate_maps nodeIds_def map_has_iff)

subsection \<open>Link keys of plain ids\<close>

lemma split_at_separator:
  "c \<notin> set x \<Longrightarrow> c \<notin> set x' \<Longrightarrow> x @ c # y = x' @ c # y' \<Longrightarrow> x = x' \<and> y = y'"
proof (induction x arbitrary: x')
  case Nil
  then show ?case by (cases x') auto
next
  case (Cons a x)
  then show ?case by (cases x') auto
qed

lemma plainIdE:
  assumes "plainId v"
  obtains x where "v = Str x" and "CHR ''-'' \<notin> set x"
  using assms by (cases v) (simp_all add: plainId_def)

lemma link_key_inject:
  assumes "plainId s" and "plainId s'" and "plainId t" and "plainId t'"
    and "link_key s t = link_key s' t'"
  shows "s = s' \<and> t = t'"
proof -
  from assms(1) obtain x where x: "s = Str x" "CHR ''-'' \<notin> set x" by (rule plainIdE)
  from assms(2) obtain x' where x': "s' = Str x'" "CHR ''-'' \<notin> set x'" by (rule plainIdE)
  from assms(3) obtain y where y: "t = Str y" by (rule plainIdE)
  from assms(4) obtain y' where y': "t' = Str y'" by (rule plainIdE)
  have "x @ CHR ''-'' # y = x' @ CHR ''-'' # y'"
    using assms(5) by (simp add: link_key_def x y x' y')
  then have "x = x' \<and> y = y'" using x(2) x'(2) by (rule split_at_separator [rotated 2])
  then show ?thesis by (simp add: x y x' y')
qed

subsection \<open>Contextual links, malformed entries, reversed relationships\<close>

lemma map_has_get: "map_has m k \<longleftrightarrow> (\<exists>v. map_get m k = Some v)"
  by (simp add: map_has_def map_get_def)

lemma no_key_between:
  assumes "plainId a" and "plainId b"
    and "\<forall>l\<in>set ls. plainId (source l) \<and> plainId (target l)"
    and "\<forall>l\<in>set ls. \<not> between a b l"
  shows "\<forall>l\<in>set ls. link_key (source l) (target l) \<noteq> link_key a b
           \<and> link_key (source l) (target l) \<noteq> link_key b a"
proof
  fix l assume l: "l \<in> set ls"
  have "link_key (source l) (target l) \<noteq> link_key a b"
    using link_key_inject [of "source l" a "target l" b] assms l
    by (auto simp: between_def)
  moreover have "link_key (source l) (target l) \<noteq> link_key b a"
    using link_key_inject [of "source l" b "target l" a] assms l
    by (auto simp: between_def)
  ultimately show "link_key (source l) (target l) \<noteq> link_key a b
           \<and> link_key (source l) (target l) \<noteq> link_key b a" by simp
qed

lemma key_not_stored:
  assumes "\<forall>l\<in>set ls. link_key (source l) (target l) \<noteq> k"
  shows "\<not> map_has (new_Map (map (\<lambda>l. (link_key (source l) (target l), l)) ls)) k"
  using assms by (auto simp: map_has_iff new_Map_keys image_image)

lemma filter_between_old:
  assumes "\<forall>l\<in>set ls. \<not> between a b l"
  shows "filter (between a b)
           (map snd (new_Map (map (\<lambda>l. (link_key (source l) (target l), l)) ls))) = []"
proof -
  have "snd e \<in> set ls"
    if "e \<in> set (new_Map (map (\<lambda>l. (link_key (source l) (target l), l)) ls))" for e
    using that new_Map_subset [of "map (\<lambda>l. (link_key (source l) (target l), l)) ls"] by auto
  then show ?thesis using assms by (auto simp: filter_empty_conv)
qed

text \<open>
  What the contextual-link branch does in terms of its own keys. Let the focus \<open>a\<close> be
  set, let the concept \<open>c\<close> have an id \<open>b\<close> that is new to the graph and differs from \<open>a\<close>,
  and let no link of the graph be stored under the key of \<open>a\<close> and \<open>b\<close> in either order
  (for ids without the separator character these are the links that join \<open>a\<close> and \<open>b\<close>,
  see \<open>no_key_between\<close>). After the update with the single concept \<open>c\<close> the graph has
  exactly one link between \<open>a\<close> and \<open>b\<close>, from \<open>a\<close> to \<open>b\<close> with strength 3, and applying
  the same update again under the same focus leaves exactly that link between them.
\<close>

lemma contextual_link_by_key:
  assumes "truthy (Some a)"
    and "b \<notin> set (nodeIds g)" and "b \<noteq> a"
    and "\<forall>l\<in>set (links g). link_key (source l) (target l) \<noteq> link_key a b
           \<and> link_key (source l) (target l) \<noteq> link_key b a"
    and "c_id c = b" and "concepts u = Some [c]"
    and "relationships u = None \<or> relationships u = Some []"
  shows "filter (between a b) (links (handleGraphUpdate g u (Some a)))
           = [\<lparr>source = a, target = b, link_value = 3\<rparr>]
       \<and> filter (between a b) (links (handleGraphUpdate (handleGraphUpdate g u (Some a)) u (Some a)))
           = [\<lparr>source = a, target = b, link_value = 3\<rparr>]"
proof -
  let ?nm = "new_Map (map (\<lambda>n. (node_id n, n)) (nodes g))"
  let ?lm = "new_Map (map (\<lambda>l. (link_key (source l) (target l), l)) (links g))"
  let ?N = "\<lparr>node_id = b, node_label = c_label c, val = importance c,
             node_x = None, node_y = None\<rparr>"
  let ?L = "\<lparr>source = a, target = b, link_value = 3\<rparr>"
  let ?g1 = "handleGraphUpdate g u (Some a)"
  have nob: "map_get ?nm b = None"
    using assms(2) by (simp add: map_get_None_iff new_Map_keys nodeIds_def image_image)
  have k1: "\<not> map_has ?lm (link_key a b)"
    using assms(4) by (intro key_not_stored) simp
  have k2: "\<not> map_has ?lm (link_key b a)"
    using assms(4) by (intro key_not_stored) simp
  have nb: "\<forall>l\<in>set (links g). \<not> between a b l"
    using assms(4) by (auto simp: between_def)
  have step: "conceptStep (Some a) (?nm, ?lm) c = (map_set ?nm b ?N, map_set ?lm (link_key a b) ?L)"
    using nob k1 k2 assms(1,3,5) by (simp add: conceptStep_def Let_def)
  have mm: "mergeMaps g u (Some a) = (map_set ?nm b ?N, map_set ?lm (link_key a b) ?L)"
    using assms(6,7) step by (auto simp: mergeMaps_def Let_def)
  have "map_set ?lm (link_key a b) ?L = ?lm @ [(link_key a b, ?L)]"
    using k1 by (intro map_set_new) (simp add: map_has_iff)
  then have l1: "links ?g1 = map snd ?lm @ [?L]"
    by (simp add: handleGraphUpdate_maps mm map_values_def)
  have f1: "filter (between a b) (links ?g1) = [?L]"
    using filter_between_old [OF nb] by (simp add: l1 between_def)
  have "map_has (fst (mergeMaps g u (Some a))) b" by (simp add: mm map_has_set)
  then obtain e where e: "map_get (fst (mergeMaps g u (Some a))) b = Some e"
    by (auto simp: map_has_get)
  have "snd (conceptStep (Some a) (fst (mergeMaps g u (Some a)), snd (mergeMaps g u (Some a))) c)
          = snd (mergeMaps g u (Some a))"
    using e assms(5) by (simp add: conceptStep_def Let_def)
  then have "snd (mergeMaps ?g1 u (Some a)) = snd (mergeMaps g u (Some a))"
    using assms(6,7) by (auto simp: mergeMaps_def [of ?g1] Let_def rebuild_links rebuild_nodes)
  then have "links (handleGraphUpdate ?g1 u (Some a)) = links ?g1"
    by (simp add: handleGraphUpdate_maps)
  then show ?thesis using f1 by simp
qed

lemma contextual_link_by_key_example:
  "truthy (Some (Str ''a'')) \<and> Str ''c'' \<notin> set (nodeIds graphAB)
   \<and> filter (between (Str ''a'') (Str ''c'')) (links graphAB) = []
   \<and> filter (between (Str ''a'') (Str ''c'')) (links (handleGraphUpdate graphAB updateC (Some (Str ''a''))))
       = [\<lparr>source = Str ''a'', target = Str ''c'', link_value = 3\<rparr>]
   \<and> filter (between (Str ''a'') (Str ''c''))
        (links (handleGraphUpdate (handleGraphUpdate graphAB updateC (Some (Str ''a''))) updateC (Some (Str ''a''))))
       = [\<lparr>source = Str ''a'', target = Str ''c'', link_value = 3\<rparr>]"
  using contextual_link_by_key [of "Str ''a''" "Str ''c''" graphAB conceptC updateC]
  by (simp add: graphAB_def nodeA_def nodeB_def conceptC_def updateC_def link_key_def
      between_def nodeIds_def)

text \<open>
  C4 at a concrete input. \<open>collisionGraph\<close> is what one update builds from the empty
  graph. With \<open>x\<close> focused, the concept \<open>y-z\<close> is new, differs from the focus, and no link
  joins \<open>x\<close> and \<open>y-z\<close>. The key looked up for the contextual link is \<open>x-y-z\<close>, which is
  also the key of the link from \<open>x-y\<close> to \<open>z\<close>, so the node \<open>y-z\<close> is created without a
  link: afterwards no link joins \<open>x\<close> and \<open>y-z\<close>.
\<close>

theorem contextual_link_key_collision:
  "handleGraphUpdate emptyGraph collisionSetup None = collisionGraph
   \<and> Str ''x'' \<in> set (nodeIds collisionGraph)
   \<and> Str ''y-z'' \<notin> set (nodeIds collisionGraph)
   \<and> filter (between (Str ''x'') (Str ''y-z'')) (links collisionGraph) = []
   \<and> handleGraphUpdate collisionGraph collisionUpdate (Some (Str ''x''))
       = \<lparr>nodes = nodes collisionGraph
                   @ [\<lparr>node_id = Str ''y-z'', node_label = Str ''YZ'', val = 4,
                       node_x = None, node_y = None\<rparr>],
          links = [\<lparr>source = Str ''x-y'', target = Str ''z'', link_value = 2\<rparr>]\<rparr>
   \<and> filter (between (Str ''x'') (Str ''y-z''))
        (links (handleGraphUpdate collisionGraph collisionUpdate (Some (Str ''x'')))) = []"
  by (simp add: collisionSetup_def collisionGraph_def collisionUpdate_def between_def merge_eval)

lemma relationshipStep_has_mono:
  "map_has (snd st) k \<Longrightarrow> map_has (snd (relationshipStep st r)) k"
  by (simp add: relationshipStep_def Let_def map_has_set split: option.splits)

lemma relationshipStep_has_key:
  "map_has (fst st) (source_id r) \<Longrightarrow> map_has (fst st) (target_id r) \<Longrightarrow>
   map_has (snd (relationshipStep st r)) (link_key (source_id r) (target_id r))"
  by (simp add: relationshipStep_def Let_def map_has_set split: option.splits)

lemma relationships_fold_has_mono:
  "map_has (snd st) k \<Longrightarrow> map_has (snd (foldl relationshipStep st rs)) k"
  by (induction rs arbitrary: st) (simp_all add: relationshipStep_has_mono)

lemma relationships_fold_has_key:
  "r \<in> set rs \<Longrightarrow> map_has (fst st) (source_id r) \<Longrightarrow> map_has (fst st) (target_id r) \<Longrightarrow>
   map_has (snd (foldl relationshipStep st rs)) (link_key (source_id r) (target_id r))"
proof (induction rs arbitrary: st)
  case Nil
  then show ?case by simp
next
  case (Cons r' rs)
  show ?case
  proof (cases "r = r'")
    case True
    then show ?thesis
      using Cons.prems relationshipStep_has_key [of st r] relationships_fold_has_mono
      by simp
  next
    case False
    then show ?thesis using Cons by (simp add: relationshipStep_nodes)
  qed
qed

lemma concept_new_node:
  assumes "map_get (fst st) (c_id c) = None"
  shows "fst (conceptStep f st c) =
     fst st @ [(c_id c, \<lparr>node_id = c_id c, node_label = c_label c, val = importance c,
                          node_x = None, node_y = None\<rparr>)]"
proof -
  have "c_id c \<notin> fst ` set (fst st)" using assms by (simp add: map_get_None_iff)
  then have "map_set (fst st) (c_id c) \<lparr>node_id = c_id c, node_label = c_label c,
        val = importance c, node_x = None, node_y = None\<rparr>
      = fst st @ [(c_id c, \<lparr>node_id = c_id c, node_label = c_label c, val = importance c,
                          node_x = None, node_y = None\<rparr>)]"
    by (rule map_set_new)
  then show ?thesis using assms by (simp add: conceptStep_def Let_def split: option.splits)
qed

text \<open>
  C9, as the code has it. No concept entry is skipped: an entry whose id or label is
  missing is processed like every other entry, the missing field being \<open>undefined\<close>. The
  id of every entry of the batch, also \<open>undefined\<close>, is the id of a node of the resulting
  graph; an entry with a new id becomes the node with the entry's id, label and importance
  as they are; and every relationship of the batch whose endpoints are nodes of the
  resulting graph has a link under its key there.
\<close>

theorem malformed_concept_not_skipped:
  assumes "concepts u = Some cs" and "c \<in> set cs"
  shows "c_id c \<in> set (nodeIds (handleGraphUpdate g u f))
       \<and> (cs = [c] \<and> c_id c \<notin> set (nodeIds g) \<longrightarrow>
            last (nodes (handleGraphUpdate g u f))
              = \<lparr>node_id = c_id c, node_label = c_label c, val = importance c,
                 node_x = None, node_y = None\<rparr>)
       \<and> (\<forall>rs r. relationships u = Some rs \<and> r \<in> set rs
              \<and> source_id r \<in> set (nodeIds (handleGraphUpdate g u f))
              \<and> target_id r \<in> set (nodeIds (handleGraphUpdate g u f))
            \<longrightarrow> (\<exists>l\<in>set (links (handleGraphUpdate g u f)).
                   link_key (source l) (target l) = link_key (source_id r) (target_id r)))"
proof -
  let ?g1 = "handleGraphUpdate g u f"
  let ?nm = "new_Map (map (\<lambda>n. (node_id n, n)) (nodes g))"
  let ?lm = "new_Map (map (\<lambda>l. (link_key (source l) (target l), l)) (links g))"
  have 1: "c_id c \<in> set (nodeIds ?g1)"
    using assms by (simp add: nodeIds_update mergeMaps_has)
  have 2: "last (nodes ?g1) = \<lparr>node_id = c_id c, node_label = c_label c, val = importance c,
                 node_x = None, node_y = None\<rparr>"
    if "cs = [c]" "c_id c \<notin> set (nodeIds g)"
  proof -
    have "map_get ?nm (c_id c) = None"
      using that(2) by (simp add: map_get_None_iff new_Map_keys nodeIds_def image_image)
    then have "fst (conceptStep f (?nm, ?lm) c) = ?nm @ [(c_id c, \<lparr>node_id = c_id c,
        node_label = c_label c, val = importance c, node_x = None, node_y = None\<rparr>)]"
      using concept_new_node [of "(?nm, ?lm)" c f] by simp
    then have "fst (mergeMaps g u f) = ?nm @ [(c_id c, \<lparr>node_id = c_id c,
        node_label = c_label c, val = importance c, node_x = None, node_y = None\<rparr>)]"
      using assms(1) that(1)
      by (simp add: mergeMaps_def Let_def relationships_fold_nodes split: option.splits)
    then show ?thesis by (simp add: handleGraphUpdate_maps map_values_def)
  qed
  have 3: "\<exists>l\<in>set (links ?g1). link_key (source l) (target l) = link_key (source_id r) (target_id r)"
    if "relationships u = Some rs" "r \<in> set rs" "source_id r \<in> set (nodeIds ?g1)"
      "target_id r \<in> set (nodeIds ?g1)" for rs r
  proof -
    let ?st1 = "foldl (conceptStep f) (?nm, ?lm) cs"
    have mm: "mergeMaps g u f = foldl relationshipStep ?st1 rs"
      using assms(1) that(1) by (simp add: mergeMaps_def Let_def)
    have "map_has (fst ?st1) (source_id r)" "map_has (fst ?st1) (target_id r)"
      using that(3,4) by (simp_all add: nodeIds_update mm relationships_fold_nodes)
    then have "map_has (snd (mergeMaps g u f)) (link_key (source_id r) (target_id r))"
      unfolding mm using that(2) by (intro relationships_fold_has_key)
    then obtain l where l: "map_get (snd (mergeMaps g u f)) (link_key (source_id r) (target_id r)) = Some l"
      by (auto simp: map_has_get)
    have "linkKeysOk (snd (mergeMaps g u f))" using mergeMaps_keys [of g u f] by simp
    then have "link_key (source l) (target l) = link_key (source_id r) (target_id r)"
      using l by (rule linkKeysOk_get)
    moreover have "l \<in> set (links ?g1)"
      using map_get_SomeD [OF l] by (force simp: handleGraphUpdate_maps map_values_def)
    ultimately show ?thesis by blast
  qed
  show ?thesis using 1 2 3 by blast
qed

theorem malformed_concept_not_skipped_witness:
  "nodes (handleGraphUpdate emptyGraph malformedBatch None) =
     [\<lparr>node_id = Undefined, node_label = Str ''X'', val = 5, node_x = None, node_y = None\<rparr>,
      \<lparr>node_id = Str ''m'', node_label = Undefined, val = 6, node_x = None, node_y = None\<rparr>,
      \<lparr>node_id = Str ''c'', node_label = Str ''C'', val = 7, node_x = None, node_y = None\<rparr>]
   \<and> Undefined \<in> set (nodeIds (handleGraphUpdate emptyGraph malformedBatch None))
   \<and> Str ''m'' \<in> set (nodeIds (handleGraphUpdate emptyGraph malformedBatch None))"
proof -
  have cs: "concepts malformedBatch = Some [\<lparr>c_id = Undefined, c_label = Str ''X'', importance = 5\<rparr>,
                       \<lparr>c_id = Str ''m'', c_label = Undefined, importance = 6\<rparr>, conceptC]"
    by (simp add: malformedBatch_def)
  have 1: "Undefined \<in> set (nodeIds (handleGraphUpdate emptyGraph malformedBatch None))"
    using malformed_concept_not_skipped [OF cs,
        of "\<lparr>c_id = Undefined, c_label = Str ''X'', importance = 5\<rparr>" emptyGraph None]
    by simp
  have 2: "Str ''m'' \<in> set (nodeIds (handleGraphUpdate emptyGraph malformedBatch None))"
    using malformed_concept_not_skipped [OF cs,
        of "\<lparr>c_id = Str ''m'', c_label = Undefined, importance = 6\<rparr>" emptyGraph None]
    by simp
  have "nodes (handleGraphUpdate emptyGraph malformedBatch None) =
     [\<lparr>node_id = Undefined, node_label = Str ''X'', val = 5, node_x = None, node_y = None\<rparr>,
      \<lparr>node_id = Str ''m'', node_label = Undefined, val = 6, node_x = None, node_y = None\<rparr>,
      \<lparr>node_id = Str ''c'', node_label = Str ''C'', val = 7, node_x = None, node_y = None\<rparr>]"
    by (simp add: malformedBatch_def conceptC_def merge_eval)
  then show ?thesis using 1 2 by simp
qed

text \<open>
  C9, as the claim states it, fails: a batch of one concept without an id and one without
  a label, applied to the empty graph, gives a graph with a node for each of them.
\<close>

theorem malformed_concept_creates_node:
  "handleGraphUpdate emptyGraph
     \<lparr>concepts = Some [\<lparr>c_id = Undefined, c_label = Str ''X'', importance = 5\<rparr>,
                       \<lparr>c_id = Str ''m'', c_label = Undefined, importance = 6\<rparr>],
      relationships = None\<rparr> None
   = \<lparr>nodes = [\<lparr>node_id = Undefined, node_label = Str ''X'', val = 5,
                 node_x = None, node_y = None\<rparr>,
               \<lparr>node_id = Str ''m'', node_label = Undefined, val = 6,
                 node_x = None, node_y = None\<rparr>],
      links = []\<rparr>"
  by (simp add: merge_eval)

text \<open>
  C2 at a concrete input. \<open>graphAB\<close> holds the link from \<open>a\<close> to \<open>b\<close> with strength 4. A
  relationship from \<open>b\<close> to \<open>a\<close> with strength 2 leaves that link at 4 and adds a second
  link from \<open>b\<close> to \<open>a\<close> with strength 2, since only the key \<open>b-a\<close> is looked up. The same
  relationship from \<open>a\<close> to \<open>b\<close> raises the existing link to 5 and adds none.
\<close>

theorem reverse_relationship_duplicates_link:
  "handleGraphUpdate graphAB reverseUpdate None
     = \<lparr>nodes = [nodeA, nodeB],
        links = [\<lparr>source = Str ''a'', target = Str ''b'', link_value = 4\<rparr>,
                 \<lparr>source = Str ''b'', target = Str ''a'', link_value = 2\<rparr>]\<rparr>
   \<and> handleGraphUpdate graphAB forwardUpdate None
     = \<lparr>nodes = [nodeA, nodeB],
        links = [\<lparr>source = Str ''a'', target = Str ''b'', link_value = 5\<rparr>]\<rparr>"
  by (simp add: graphAB_def nodeA_def nodeB_def reverseUpdate_def forwardUpdate_def merge_eval)

end
